theory Spec2Isabelle
  imports Main "HOL-Library.Product_Lexorder" "HOL-Library.Multiset"
begin

section \<open>Data model\<close>

text \<open>
  The tables read and written by \<^verbatim>\<open>src/db/db_funcs.py\<close>. A table is the list of its rows
  in insertion order; the autoincrement primary keys are the positions in the list and are
  not stored. Python integers are \<^typ>\<open>int\<close>, strings are \<^typ>\<open>string\<close>, a nullable column
  is an \<^typ>\<open>'a option\<close>. Timestamps are integers supplied by the caller.
\<close>

record user =
  user_id :: int
  name :: string
  created_time :: int
  total_games :: int
  total_wins :: int
  total_defeats :: int
  total_draws :: int

record game =
  g_user_id :: int
  orientation :: string
  is_active :: bool
  prev_moves :: string
  last_move :: "string option"
  check :: "string option"
  fen :: string
  who_win :: "string option"

text \<open>
  A Settings row: the owner and the parameter columns \<^verbatim>\<open>min_time\<close> ... \<^verbatim>\<open>size\<close> of
  \<^verbatim>\<open>src/db/models/settings.py\<close>, kept by column name because \<^verbatim>\<open>update_settings\<close> and
  \<^verbatim>\<open>Settings.async_init\<close> address them through keyword dictionaries. Column values are
  integers (a Boolean column holds 0 or 1).
\<close>

record settings =
  s_user_id :: int
  s_params :: "string \<rightharpoonup> int"

record store =
  users :: "user list"
  games :: "game list"
  settings_rows :: "settings list"

definition empty_store :: store where
  "empty_store = \<lparr>users = [], games = [], settings_rows = []\<rparr>"

text \<open>
  The answer of the evaluation service (\<^verbatim>\<open>EngineEvaluation\<close>), with the fields the
  code reads.
\<close>

record evaluation =
  ev_value :: int
  end_type :: string
  is_end :: bool
  ev_who_win :: "string option"
  wdl :: "int \<times> int \<times> int"

text \<open>
  \<^verbatim>\<open>get_engine_evaluation(fen=...)\<close> is an external service: a function of the position
  that answers with an evaluation, or fails (\<open>None\<close>), in which case the exception leaves
  the calling function.
\<close>

type_synonym engine = "string \<Rightarrow> evaluation option"

datatype error =
  ValueError
  | AttributeError
  | UpstreamServiceError
  | IntegrityError
  | TypeError
  | CompileError
  | ZeroDivisionError

text \<open>
  Every operation takes the store and returns the store after the call together with
  either the raised exception (\<open>Inl\<close>) or the returned value (\<open>Inr\<close>). An exception raised
  inside a \<^verbatim>\<open>with create_session(do_commit=True)\<close> block leaves the block before the
  commit, so the store of the result is the one before the block.
\<close>

type_synonym 'a result = "store \<times> (error + 'a)"

section \<open>Queries\<close>

definition get_user :: "store \<Rightarrow> int \<Rightarrow> user option" where
  "get_user s uid = find (\<lambda>u. user_id u = uid) (users s)"

definition get_settings :: "store \<Rightarrow> int \<Rightarrow> settings option" where
  "get_settings s uid = find (\<lambda>r. s_user_id r = uid) (settings_rows s)"

definition get_current_game :: "store \<Rightarrow> int \<Rightarrow> game option" where
  "get_current_game s uid = find (\<lambda>g. g_user_id g = uid \<and> is_active g) (games s)"

text \<open>The rows counted by the at-most-one-active-game invariant.\<close>

definition active_games :: "store \<Rightarrow> int \<Rightarrow> game list" where
  "active_games s uid = filter (\<lambda>g. g_user_id g = uid \<and> is_active g) (games s)"

section \<open>Stopping a game\<close>

text \<open>The \<^verbatim>\<open>if is_resign / elif / elif / else\<close> chain of \<^verbatim>\<open>stop_current_game\<close>.\<close>

definition resolve_who_win :: "bool \<Rightarrow> game \<Rightarrow> evaluation \<Rightarrow> string option" where
  "resolve_who_win is_resign g e =
     (if is_resign then Some (if orientation g = ''b'' then ''w'' else ''b'')
      else if is_end e then ev_who_win e
      else if end_type e = ''checkmate'' then Some (if ev_value e > 0 then ''w'' else ''b'')
      else None)"

text \<open>
  \<^verbatim>\<open>sa.update(Game).where(user_id, is_active).values(is_active=False, who_win=...)\<close>:
  every active row of the user is written.
\<close>

definition deactivate_games :: "int \<Rightarrow> string option \<Rightarrow> game list \<Rightarrow> game list" where
  "deactivate_games uid w gs =
     map (\<lambda>g. if g_user_id g = uid \<and> is_active g
               then g\<lparr>is_active := False, who_win := w\<rparr> else g) gs"

text \<open>
  \<^verbatim>\<open>sa.update(User).where(user_id).values(total_games=..., ...)\<close>: the new counters are
  computed from the row \<open>usr\<close> read just before and from the orientation of the game
  fetched at the start of the call.
\<close>

definition record_outcome :: "user \<Rightarrow> game \<Rightarrow> string option \<Rightarrow> user \<Rightarrow> user" where
  "record_outcome usr g w u =
     u\<lparr>total_games := total_games usr + 1,
       total_wins := (if Some (orientation g) = w then total_wins usr + 1 else total_wins usr),
       total_defeats := (if w \<noteq> None \<and> Some (orientation g) \<noteq> w
                         then total_defeats usr + 1 else total_defeats usr),
       total_draws := (if w = None then total_draws usr + 1 else total_draws usr)\<rparr>"

definition update_user_stats :: "int \<Rightarrow> user \<Rightarrow> game \<Rightarrow> string option \<Rightarrow> user list \<Rightarrow> user list" where
  "update_user_stats uid usr g w us =
     map (\<lambda>u. if user_id u = uid then record_outcome usr g w u else u) us"

definition stop_current_game ::
  "engine \<Rightarrow> store \<Rightarrow> int \<Rightarrow> bool \<Rightarrow> ((evaluation \<times> string option) option) result" where
  "stop_current_game ev s uid is_resign =
     (case get_current_game s uid of
        None \<Rightarrow> (s, Inr None)
      | Some g \<Rightarrow>
          (case ev (fen g) of
             None \<Rightarrow> (s, Inl UpstreamServiceError)
           | Some e \<Rightarrow>
               (let w = resolve_who_win is_resign g e;
                    s1 = s\<lparr>games := deactivate_games uid w (games s)\<rparr>
                in case get_user s1 uid of
                     None \<Rightarrow> (s, Inl AttributeError)
                   | Some usr \<Rightarrow>
                       (s1\<lparr>users := update_user_stats uid usr g w (users s1)\<rparr>,
                        Inr (Some (e, w))))))"

section \<open>Starting and advancing a game\<close>

text \<open>
  Modelled from the spec: the Game model is not among the sources, so the columns that
  \<^verbatim>\<open>Game(user_id=..., orientation=..., is_active=True)\<close> leaves to their defaults are
  taken from the spec's "empty history and the starting position".
\<close>

definition start_fen :: string where
  "start_fen = ''rnbqkbnr/pppppppp/8/8/8/8/PPPPPPPP/RNBQKBNR w KQkq - 0 1''"

definition new_game :: "int \<Rightarrow> string \<Rightarrow> game" where
  "new_game uid ori =
     \<lparr>g_user_id = uid, orientation = ori, is_active = True, prev_moves = [],
      last_move = None, check = None, fen = start_fen, who_win = None\<rparr>"

text \<open>
  \<^verbatim>\<open>create_new_game\<close>: the orientation check, then \<^verbatim>\<open>stop_current_game(user_id,
  is_resign=True)\<close>, whose result is a tuple exactly when it is not \<open>None\<close>, then the insert.
  An exception of the stop leaves the function before the insert.
\<close>

definition create_new_game :: "engine \<Rightarrow> store \<Rightarrow> int \<Rightarrow> string \<Rightarrow> bool result" where
  "create_new_game ev s uid ori =
     (if ori \<notin> set [''w'', ''b''] then (s, Inl ValueError)
      else case stop_current_game ev s uid True of
             (s1, Inl x) \<Rightarrow> (s1, Inl x)
           | (s1, Inr r) \<Rightarrow> (s1\<lparr>games := games s1 @ [new_game uid ori]\<rparr>, Inr (r \<noteq> None)))"

definition advance_games ::
  "int \<Rightarrow> string \<Rightarrow> string \<Rightarrow> string option \<Rightarrow> string \<Rightarrow> game list \<Rightarrow> game list" where
  "advance_games uid pm lm ch f gs =
     map (\<lambda>g. if g_user_id g = uid \<and> is_active g
               then g\<lparr>prev_moves := pm, fen := f, last_move := Some lm, check := ch\<rparr>
               else g) gs"

definition update_current_game ::
  "store \<Rightarrow> int \<Rightarrow> string \<Rightarrow> string \<Rightarrow> string option \<Rightarrow> string \<Rightarrow> (bool option) result" where
  "update_current_game s uid pm lm ch f =
     (case get_current_game s uid of
        None \<Rightarrow> (s, Inr None)
      | Some _ \<Rightarrow> (s\<lparr>games := advance_games uid pm lm ch f (games s)\<rparr>, Inr (Some True)))"

section \<open>Users and settings\<close>

text \<open>The parameter columns of the Settings table, and those declared \<^verbatim>\<open>nullable=False\<close>
  without a column default.\<close>

definition settings_columns :: "string list" where
  "settings_columns =
     [''min_time'', ''max_time'', ''threads'', ''depth'', ''ram_hash'', ''skill_level'',
      ''elo'', ''colors'', ''with_coords'', ''size'']"

definition required_columns :: "string list" where
  "required_columns =
     [''min_time'', ''max_time'', ''threads'', ''depth'', ''ram_hash'', ''skill_level'',
      ''elo'', ''size'']"

text \<open>
  \<^verbatim>\<open>Settings(user_id=...)\<close> followed by \<^verbatim>\<open>async_init\<close>: the defaults of the limits
  service (\<open>None\<close> when the service fails), updated with the stored keyword arguments, are
  passed to the mapped constructor, which raises \<^verbatim>\<open>TypeError\<close> for a name that is not a
  mapped attribute. Of the mapped attributes the model keeps the owner and the parameter
  columns; the primary key and the modification time are left to the store.
\<close>

definition settings_async_init :: "(string \<times> int) list option \<Rightarrow> int \<Rightarrow> error + settings" where
  "settings_async_init defaults uid =
     (case defaults of
        None \<Rightarrow> Inl UpstreamServiceError
      | Some d \<Rightarrow>
          (let d' = filter (\<lambda>(k, v). k \<noteq> ''user_id'') d
           in if list_all (\<lambda>(k, v). k \<in> set settings_columns) d'
              then Inr \<lparr>s_user_id = uid, s_params = map_of d'\<rparr>
              else Inl TypeError))"

text \<open>
  The INSERT of a Settings row: \<^verbatim>\<open>user_id\<close> is unique, the required columns must have
  a value, and \<^verbatim>\<open>with_coords\<close> has the column default \<open>True\<close>.
\<close>

definition insert_settings :: "settings \<Rightarrow> settings list \<Rightarrow> error + settings list" where
  "insert_settings row rows =
     (if list_ex (\<lambda>r. s_user_id r = s_user_id row) rows then Inl IntegrityError
      else if \<not> list_all (\<lambda>c. s_params row c \<noteq> None) required_columns then Inl IntegrityError
      else Inr (rows @ [if s_params row ''with_coords'' = None
                        then row\<lparr>s_params := (s_params row)(''with_coords'' \<mapsto> 1)\<rparr>
                        else row]))"

text \<open>
  Modelled from the spec: the User model is not among the sources; a new row has the
  given id and name, the creation time, and all four counters at zero.
\<close>

definition new_user :: "int \<Rightarrow> string \<Rightarrow> int \<Rightarrow> user" where
  "new_user uid nm now =
     \<lparr>user_id = uid, name = nm, created_time = now, total_games = 0, total_wins = 0,
      total_defeats = 0, total_draws = 0\<rparr>"

definition create_new_user ::
  "(string \<times> int) list option \<Rightarrow> int \<Rightarrow> store \<Rightarrow> int \<Rightarrow> string \<Rightarrow> unit result" where
  "create_new_user defaults now s uid nm =
     (case get_user s uid of
        Some _ \<Rightarrow> (s, Inr ())
      | None \<Rightarrow>
          (case settings_async_init defaults uid of
             Inl x \<Rightarrow> (s, Inl x)
           | Inr row \<Rightarrow>
               (case insert_settings row (settings_rows s) of
                  Inl x \<Rightarrow> (s, Inl x)
                | Inr rows \<Rightarrow>
                    (s\<lparr>users := users s @ [new_user uid nm now], settings_rows := rows\<rparr>,
                     Inr ()))))"

text \<open>
  \<^verbatim>\<open>update_settings\<close>. The response of the limits service (\<open>None\<close> when the service
  fails) maps a parameter name to a dictionary with the keys \<^verbatim>\<open>min\<close> and \<^verbatim>\<open>max\<close>; any
  \<^verbatim>\<open>KeyError\<close> of the three lookups leaves the parameter as it is. The keyword
  dictionary is an association list in the order of its keys. The UPDATE statement
  writes the clamped values to every Settings row of the user; a name that is not a
  column makes the statement fail when it is compiled, before any row is written.
\<close>

type_synonym limits = "string \<rightharpoonup> (string \<rightharpoonup> int)"

definition clamp_param :: "limits \<Rightarrow> string \<times> int \<Rightarrow> string \<times> int" where
  "clamp_param lim pv =
     (case pv of (p, v) \<Rightarrow>
        (case lim p of
           None \<Rightarrow> (p, v)
         | Some l \<Rightarrow>
             (case l ''max'' of
                None \<Rightarrow> (p, v)
              | Some hi \<Rightarrow>
                  (case l ''min'' of
                     None \<Rightarrow> (p, v)
                   | Some lo \<Rightarrow> (p, max (min v hi) lo)))))"

definition apply_params :: "int \<Rightarrow> (string \<times> int) list \<Rightarrow> settings list \<Rightarrow> settings list" where
  "apply_params uid ps rows =
     map (\<lambda>r. if s_user_id r = uid then r\<lparr>s_params := s_params r ++ map_of ps\<rparr> else r) rows"

definition update_settings ::
  "limits option \<Rightarrow> store \<Rightarrow> int \<Rightarrow> (string \<times> int) list \<Rightarrow> ((string \<times> int) list) result" where
  "update_settings limits s uid params =
     (case limits of
        None \<Rightarrow> (s, Inl UpstreamServiceError)
      | Some lim \<Rightarrow>
          (let params' = map (clamp_param lim) params
           in if list_all (\<lambda>(k, v). k \<in> set settings_columns) params'
              then (s\<lparr>settings_rows := apply_params uid params' (settings_rows s)\<rparr>, Inr params')
              else (s, Inl CompileError)))"

section \<open>The leaderboard\<close>

text \<open>
  \<^verbatim>\<open>Config.GLOBAL_TOP\<close> and \<^verbatim>\<open>Config.CACHE_GLOBAL_TOP\<close> are constants of a module that is
  not among the sources; they are parameters here.
\<close>

record config =
  GLOBAL_TOP :: nat
  CACHE_GLOBAL_TOP :: nat

text \<open>
  The win rate is computed in binary floating point: \<^verbatim>\<open>total_wins / (total_games or 1)\<close>
  is the correctly rounded quotient of two integers, \<^verbatim>\<open>* 100\<close> a correctly rounded
  product, and \<^verbatim>\<open>round\<close> rounds half to even. A float is a pair \<open>(m, e)\<close> standing for
  \<open>m * 2 ^ e\<close>; results are rounded to 53 significant bits, ties to even. The exponent is
  not bounded, so overflow and subnormal numbers are outside this model.
\<close>

type_synonym float = "int \<times> int"

fun bitlen :: "nat \<Rightarrow> nat" where
  "bitlen n = (if n = 0 then 0 else Suc (bitlen (n div 2)))"

definition rne_div :: "int \<Rightarrow> int \<Rightarrow> int" where
  "rne_div n d =
     (let q = n div d; r = n mod d
      in if 2 * r < d then q else if d < 2 * r then q + 1
         else if even q then q else q + 1)"

definition round_b64 :: "nat \<Rightarrow> nat \<Rightarrow> float" where
  "round_b64 n d =
     (let k = int (bitlen n) - int (bitlen d);
          fl = (if d * 2 ^ nat k \<le> n * 2 ^ nat (- k) then k else k - 1);
          e = fl - 52
      in (rne_div (int n * 2 ^ nat (- e)) (int d * 2 ^ nat e), e))"

definition py_truediv :: "int \<Rightarrow> int \<Rightarrow> error + float" where
  "py_truediv a b =
     (if b = 0 then Inl ZeroDivisionError
      else if a = 0 then Inr (0, 0)
      else case round_b64 (nat \<bar>a\<bar>) (nat \<bar>b\<bar>) of
             (m, e) \<Rightarrow> Inr (sgn a * sgn b * m, e))"

definition float_mul_int :: "float \<Rightarrow> int \<Rightarrow> float" where
  "float_mul_int x c =
     (case x of (m, e) \<Rightarrow>
        if m * c = 0 then (0, 0)
        else case round_b64 (nat \<bar>m * c\<bar>) 1 of
               (m', e') \<Rightarrow> (sgn (m * c) * m', e' + e))"

definition py_round :: "float \<Rightarrow> int" where
  "py_round x =
     (case x of (m, e) \<Rightarrow> if 0 \<le> e then m * 2 ^ nat e else rne_div m (2 ^ nat (- e)))"

text \<open>\<^verbatim>\<open>round(user.total_wins / (user.total_games or 1) * 100)\<close>\<close>

definition win_rate :: "user \<Rightarrow> error + int" where
  "win_rate u =
     (case py_truediv (total_wins u) (if total_games u \<noteq> 0 then total_games u else 1) of
        Inl x \<Rightarrow> Inl x
      | Inr q \<Rightarrow> Inr (py_round (float_mul_int q 100)))"

text \<open>
  The win rate in the words of the spec,
  \<^verbatim>\<open>round(total_wins / max(total_games, 1) * 100)\<close>, for comparison with \<open>win_rate\<close>.
\<close>

definition spec_win_rate :: "int \<Rightarrow> int \<Rightarrow> error + int" where
  "spec_win_rate w g =
     (case py_truediv w (max g 1) of
        Inl x \<Rightarrow> Inl x
      | Inr q \<Rightarrow> Inr (py_round (float_mul_int q 100)))"

text \<open>
  The query \<^verbatim>\<open>select(User).order_by(desc(total_wins), created_time).limit(GLOBAL_TOP)\<close>.
  Rows equal in both keys stay in table order.
\<close>

definition rank_key :: "user \<Rightarrow> int \<times> int" where
  "rank_key u = (- total_wins u, created_time u)"

definition top_users :: "config \<Rightarrow> store \<Rightarrow> user list" where
  "top_users cfg s = take (GLOBAL_TOP cfg) (sort_key rank_key (users s))"

text \<open>The order the spec asks for: more wins first, among equal wins the earlier user.\<close>

definition ranks_before :: "user \<Rightarrow> user \<Rightarrow> bool" where
  "ranks_before a b \<longleftrightarrow>
     total_wins b < total_wins a
     \<or> (total_wins a = total_wins b \<and> created_time a \<le> created_time b)"

text \<open>Decimal digits of an integer, as \<^verbatim>\<open>str.format\<close> prints it.\<close>

fun str_nat :: "nat \<Rightarrow> string" where
  "str_nat n =
     (if n < 10 then [char_of (48 + n)] else str_nat (n div 10) @ [char_of (48 + n mod 10)])"

definition str_int :: "int \<Rightarrow> string" where
  "str_int i = (if i < 0 then ''-'' @ str_nat (nat (- i)) else str_nat (nat i))"

text \<open>The literals of the message; the Cyrillic words are given by their UTF-8 bytes.\<close>

definition header_line :: string where
  "header_line =
     ''*'' @ [CHR 0xD0, CHR 0x9D, CHR 0xD0, CHR 0xB8, CHR 0xD0, CHR 0xBA]
     @ '' - W/D/L/Total - WinRate*''"

definition trailer_line :: "config \<Rightarrow> string" where
  "trailer_line cfg =
     [CHR 0x0A] @ [CHR 0xD0, CHR 0xA1, CHR 0xD1, CHR 0x82, CHR 0xD0, CHR 0xB0, CHR 0xD1, CHR 0x82, CHR
      0xD0, CHR 0xB8, CHR 0xD1, CHR 0x81, CHR 0xD1, CHR 0x82, CHR 0xD0, CHR 0xB8, CHR 0xD0,
      CHR 0xBA, CHR 0xD0, CHR 0xB0, CHR 0x20, CHR 0xD0, CHR 0xBE, CHR 0xD0, CHR 0xB1, CHR
      0xD0, CHR 0xBD, CHR 0xD0, CHR 0xBE, CHR 0xD0, CHR 0xB2, CHR 0xD0, CHR 0xBB, CHR 0xD1,
      CHR 0x8F, CHR 0xD0, CHR 0xB5, CHR 0xD1, CHR 0x82, CHR 0xD1, CHR 0x81, CHR 0xD1, CHR
      0x8F, CHR 0x20, CHR 0xD1, CHR 0x80, CHR 0xD0, CHR 0xB0, CHR 0xD0, CHR 0xB7, CHR 0x20,
      CHR 0xD0, CHR 0xB2]
     @ '' *'' @ str_nat (CACHE_GLOBAL_TOP cfg) @ '' '' @ [CHR 0xD1, CHR 0x81, CHR 0xD0, CHR 0xB5, CHR 0xD0, CHR 0xBA, CHR 0xD1, CHR 0x83, CHR
      0xD0, CHR 0xBD, CHR 0xD0, CHR 0xB4]
     @ ''*''"

definition format_line :: "user \<Rightarrow> int \<Rightarrow> string" where
  "format_line u rate =
     ''['' @ name u @ ''](tg://user?id='' @ str_int (user_id u) @ '') - ''
     @ str_int (total_wins u) @ ''/'' @ str_int (total_draws u) @ ''/''
     @ str_int (total_defeats u) @ ''/'' @ str_int (total_games u) @ '' - ''
     @ str_int rate @ ''%''"

fun join_lines :: "string list \<Rightarrow> string" where
  "join_lines [] = []"
| "join_lines [l] = l"
| "join_lines (l # ls) = l @ [CHR 0x0A] @ join_lines ls"

text \<open>The generator of lines: the first failing win rate ends it with its exception.\<close>

fun user_lines :: "user list \<Rightarrow> error + string list" where
  "user_lines [] = Inr []"
| "user_lines (u # us) =
     (case win_rate u of
        Inl x \<Rightarrow> Inl x
      | Inr r \<Rightarrow>
          (case user_lines us of
             Inl x \<Rightarrow> Inl x
           | Inr ls \<Rightarrow> Inr (format_line u r # ls)))"

text \<open>
  The body of \<^verbatim>\<open>get_global_statistic\<close>: the query, the lines of its rows, and the message
  joined from the header, the lines and the trailer.
\<close>

definition global_statistic_uncached :: "config \<Rightarrow> store \<Rightarrow> error + string" where
  "global_statistic_uncached cfg s =
     (case user_lines (top_users cfg s) of
        Inl x \<Rightarrow> Inl x
      | Inr ls \<Rightarrow> Inr (join_lines (header_line # ls @ [trailer_line cfg])))"

text \<open>
  Modelled from the spec: the decorator \<^verbatim>\<open>cached(ttl=Config.CACHE_GLOBAL_TOP)\<close> belongs to a
  library that is not among the sources. By the spec the computed result is cached, it is
  recomputed from storage at most once per configured interval, all callers inside that
  interval observe the same cached value, and nothing but expiry invalidates it. The cache
  holds at most one message together with the time at which it expires; the time of a call
  is an argument, in seconds. A call that finds a message that has not expired returns it
  without reading a table. Any other call runs the body and, when the body returns, keeps
  its message for \<^verbatim>\<open>CACHE_GLOBAL_TOP\<close> seconds; an exception of the body is not kept.
  With an interval of 0 seconds a kept message has expired at once, so every call runs the
  body.
\<close>

type_synonym cache = "(int \<times> string) option"

definition cache_get :: "cache \<Rightarrow> int \<Rightarrow> string option" where
  "cache_get c now =
     (case c of
        None \<Rightarrow> None
      | Some (t, m) \<Rightarrow> if now < t then Some m else None)"

definition get_global_statistic ::
  "config \<Rightarrow> int \<Rightarrow> cache \<Rightarrow> store \<Rightarrow> cache \<times> (error + string)" where
  "get_global_statistic cfg now c s =
     (case cache_get c now of
        Some m \<Rightarrow> (c, Inr m)
      | None \<Rightarrow>
          (case global_statistic_uncached cfg s of
             Inl x \<Rightarrow> (c, Inl x)
           | Inr m \<Rightarrow> (Some (now + int (CACHE_GLOBAL_TOP cfg), m), Inr m)))"

section \<open>Reachable stores\<close>

text \<open>
  The stores that sequences of calls of the writing operations produce from the empty
  store, with any arguments and any answers of the external services. A call that raises
  contributes the store it leaves behind.
\<close>

inductive reachable :: "store \<Rightarrow> bool" where
  init: "reachable empty_store"
| new_user: "reachable s \<Longrightarrow> reachable (fst (create_new_user d now s uid nm))"
| new_game: "reachable s \<Longrightarrow> reachable (fst (create_new_game ev s uid ori))"
| advance: "reachable s \<Longrightarrow> reachable (fst (update_current_game s uid pm lm ch f))"
| stop: "reachable s \<Longrightarrow> reachable (fst (stop_current_game ev s uid r))"
| settings: "reachable s \<Longrightarrow> reachable (fst (update_settings lim s uid ps))"

section \<open>Constraints of the data\<close>

text \<open>
  The constraint of the data model on the counters of a User row: none is negative and
  \<^verbatim>\<open>total_games\<close> is the sum of the other three.
\<close>

definition counters_ok :: "user \<Rightarrow> bool" where
  "counters_ok u \<longleftrightarrow>
     0 \<le> total_wins u \<and> 0 \<le> total_defeats u \<and> 0 \<le> total_draws u
     \<and> total_games u = total_wins u + total_defeats u + total_draws u"

text \<open>
  Defaults that \<^verbatim>\<open>create_new_user\<close> can store: apart from \<^verbatim>\<open>user_id\<close> they name
  parameter columns only, and they give every required column a value.
\<close>

definition valid_defaults :: "(string \<times> int) list \<Rightarrow> bool" where
  "valid_defaults dl \<longleftrightarrow>
     list_all (\<lambda>(k, v). k \<in> set settings_columns) (filter (\<lambda>(k, v). k \<noteq> ''user_id'') dl)
     \<and> list_all (\<lambda>c. map_of (filter (\<lambda>(k, v). k \<noteq> ''user_id'') dl) c \<noteq> None)
         required_columns"

section \<open>Example data\<close>

text \<open>
  A user with three wins and one defeat who plays White in an active game from the
  starting position, and an evaluation that announces mate for Black.
\<close>

definition ex_user :: user where
  "ex_user =
     \<lparr>user_id = 1, name = ''ann'', created_time = 10, total_games = 4, total_wins = 3,
      total_defeats = 1, total_draws = 0\<rparr>"

definition ex_game :: game where
  "ex_game = new_game 1 ''w''"

definition ex_eval :: evaluation where
  "ex_eval =
     \<lparr>ev_value = - 7, end_type = ''checkmate'', is_end = False, ev_who_win = None,
      wdl = (0, 0, 1000)\<rparr>"

definition ex_engine :: engine where
  "ex_engine = (\<lambda>f. Some ex_eval)"

definition ex_store :: store where
  "ex_store = \<lparr>users = [ex_user], games = [ex_game], settings_rows = []\<rparr>"

definition ex_defaults :: "(string \<times> int) list option" where
  "ex_defaults =
     Some [(''min_time'', 100), (''max_time'', 1000), (''threads'', 1), (''depth'', 15),
           (''ram_hash'', 16), (''skill_level'', 20), (''elo'', 2000), (''size'', 400)]"

text \<open>A user registers, starts a game as White and then starts another one as Black.\<close>

definition ex_registered :: store where
  "ex_registered = fst (create_new_user ex_defaults 10 empty_store 1 ''ann'')"

definition ex_playing :: store where
  "ex_playing = fst (create_new_game ex_engine ex_registered 1 ''w'')"

definition ex_replayed :: store where
  "ex_replayed = fst (create_new_game ex_engine ex_playing 1 ''b'')"

text \<open>Limits for two parameters, and an update of three.\<close>

definition ex_limits :: limits where
  "ex_limits =
     [''elo'' \<mapsto> [''min'' \<mapsto> 100, ''max'' \<mapsto> 3000],
      ''depth'' \<mapsto> [''min'' \<mapsto> 5, ''max'' \<mapsto> 30]]"

definition ex_params :: "(string \<times> int) list" where
  "ex_params = [(''elo'', 5000), (''depth'', 3), (''size'', 400)]"

text \<open>Four users for the leaderboard: two with equal wins, one who has not played.\<close>

definition ex_a :: user where
  "ex_a = \<lparr>user_id = 11, name = ''ann'', created_time = 10, total_games = 200,
           total_wins = 115, total_defeats = 80, total_draws = 5\<rparr>"

definition ex_b :: user where
  "ex_b = \<lparr>user_id = 12, name = ''bob'', created_time = 5, total_games = 0,
           total_wins = 0, total_defeats = 0, total_draws = 0\<rparr>"

definition ex_c :: user where
  "ex_c = \<lparr>user_id = 13, name = ''cy'', created_time = 3, total_games = 150,
           total_wins = 115, total_defeats = 30, total_draws = 5\<rparr>"

definition ex_d :: user where
  "ex_d = \<lparr>user_id = 14, name = ''dee'', created_time = 1, total_games = 4,
           total_wins = 3, total_defeats = 1, total_draws = 0\<rparr>"

definition ex_board :: store where
  "ex_board = \<lparr>users = [ex_a, ex_b, ex_c, ex_d], games = [], settings_rows = []\<rparr>"

definition ex_config :: config where
  "ex_config = \<lparr>GLOBAL_TOP = 3, CACHE_GLOBAL_TOP = 60\<rparr>"

text \<open>
  The message for these four users with a top of three and an interval of 60 seconds, byte
  by byte: the header, the lines of the three ranked users, an empty line and the trailer.
\<close>

definition ex_message :: string where
  "ex_message =
     ''*'' @ [CHR 0xD0, CHR 0x9D, CHR 0xD0, CHR 0xB8, CHR 0xD0, CHR 0xBA]
     @ '' - W/D/L/Total - WinRate*'' @ [CHR 0x0A]
     @ ''[cy](tg://user?id=13) - 115/5/30/150 - 77%'' @ [CHR 0x0A]
     @ ''[ann](tg://user?id=11) - 115/5/80/200 - 57%'' @ [CHR 0x0A]
     @ ''[dee](tg://user?id=14) - 3/0/1/4 - 75%'' @ [CHR 0x0A]
     @ [CHR 0x0A, CHR 0xD0, CHR 0xA1, CHR 0xD1, CHR 0x82, CHR 0xD0, CHR 0xB0, CHR 0xD1,
        CHR 0x82, CHR 0xD0, CHR 0xB8, CHR 0xD1, CHR 0x81, CHR 0xD1, CHR 0x82, CHR 0xD0,
        CHR 0xB8, CHR 0xD0, CHR 0xBA, CHR 0xD0, CHR 0xB0]
     @ '' '' @ [CHR 0xD0, CHR 0xBE, CHR 0xD0, CHR 0xB1, CHR 0xD0, CHR 0xBD, CHR 0xD0, CHR 0xBE,
        CHR 0xD0, CHR 0xB2, CHR 0xD0, CHR 0xBB, CHR 0xD1, CHR 0x8F, CHR 0xD0, CHR 0xB5,
        CHR 0xD1, CHR 0x82, CHR 0xD1, CHR 0x81, CHR 0xD1, CHR 0x8F]
     @ '' '' @ [CHR 0xD1, CHR 0x80, CHR 0xD0, CHR 0xB0, CHR 0xD0, CHR 0xB7]
     @ '' '' @ [CHR 0xD0, CHR 0xB2]
     @ '' *60 '' @ [CHR 0xD1, CHR 0x81, CHR 0xD0, CHR 0xB5, CHR 0xD0, CHR 0xBA, CHR 0xD1, CHR 0x83,
        CHR 0xD0, CHR 0xBD, CHR 0xD0, CHR 0xB4]
     @ ''*''"

section \<open>Properties of stopping\<close>

lemma get_current_game_None_iff:
  "get_current_game s uid = None \<longleftrightarrow> active_games s uid = []"
  by (auto simp: get_current_game_def active_games_def find_None_iff filter_empty_conv)

lemma active_games_deactivate_same:
  "filter (\<lambda>g. g_user_id g = uid \<and> is_active g) (deactivate_games uid w gs) = []"
  by (induction gs) (auto simp: deactivate_games_def)

lemma active_games_deactivate_other:
  "uid' \<noteq> uid \<Longrightarrow>
   filter (\<lambda>g. g_user_id g = uid' \<and> is_active g) (deactivate_games uid w gs)
     = filter (\<lambda>g. g_user_id g = uid' \<and> is_active g) gs"
  by (induction gs) (auto simp: deactivate_games_def)

lemma stop_current_game_cases:
  "stop_current_game ev s uid r = (s', res) \<Longrightarrow>
     (s' = s \<and> (res = Inr None \<or> (\<exists>x. res = Inl x)))
   \<or> (\<exists>g e usr. get_current_game s uid = Some g \<and> ev (fen g) = Some e
        \<and> get_user s uid = Some usr
        \<and> res = Inr (Some (e, resolve_who_win r g e))
        \<and> s' = s\<lparr>games := deactivate_games uid (resolve_who_win r g e) (games s),
                 users := update_user_stats uid usr g (resolve_who_win r g e) (users s)\<rparr>)"
  by (auto simp: stop_current_game_def get_user_def Let_def split: option.splits)

lemma active_games_after_stop:
  "stop_current_game ev s uid r = (s', Inr (Some x)) \<Longrightarrow> active_games s' uid = []"
  by (drule stop_current_game_cases)
     (auto simp: active_games_def active_games_deactivate_same)

text \<open>
  C4. For a user with no active Game row, \<^verbatim>\<open>stop_current_game\<close> returns \<open>None\<close> without
  raising and returns the store as it was, whatever the evaluation service would answer
  and whether or not the call is a resignation. After a stop that succeeded the user has
  no active row, so a repeated stop is such a call: it returns \<open>None\<close> and changes no
  Game row and no counter.
\<close>

theorem stop_current_game_no_active:
  "(get_current_game s uid = None \<longrightarrow> stop_current_game ev s uid r = (s, Inr None))
   \<and> (stop_current_game ev s uid r = (s', Inr (Some x)) \<longrightarrow>
        stop_current_game ev' s' uid r' = (s', Inr None))"
proof (intro conjI impI)
  assume "get_current_game s uid = None"
  then show "stop_current_game ev s uid r = (s, Inr None)"
    by (simp add: stop_current_game_def)
next
  assume "stop_current_game ev s uid r = (s', Inr (Some x))"
  then have "active_games s' uid = []"
    by (rule active_games_after_stop)
  then have "get_current_game s' uid = None"
    by (simp add: get_current_game_None_iff)
  then show "stop_current_game ev' s' uid r' = (s', Inr None)"
    by (simp add: stop_current_game_def)
qed

lemmas ex_defs =
  ex_store_def ex_user_def ex_game_def ex_eval_def ex_engine_def new_game_def start_fen_def

lemmas stop_defs =
  stop_current_game_def get_current_game_def get_user_def resolve_who_win_def
  deactivate_games_def update_user_stats_def record_outcome_def Let_def

theorem stop_current_game_no_active_witness:
  "get_current_game ex_store 2 = None
   \<and> stop_current_game ex_engine ex_store 2 True = (ex_store, Inr None)
   \<and> stop_current_game ex_engine ex_store 1 False =
       (ex_store\<lparr>games := [ex_game\<lparr>is_active := False, who_win := Some ''b''\<rparr>],
                 users := [ex_user\<lparr>total_games := 5, total_defeats := 2\<rparr>]\<rparr>,
        Inr (Some (ex_eval, Some ''b'')))
   \<and> stop_current_game ex_engine
        (ex_store\<lparr>games := [ex_game\<lparr>is_active := False, who_win := Some ''b''\<rparr>],
                  users := [ex_user\<lparr>total_games := 5, total_defeats := 2\<rparr>]\<rparr>) 1 True =
       (ex_store\<lparr>games := [ex_game\<lparr>is_active := False, who_win := Some ''b''\<rparr>],
                 users := [ex_user\<lparr>total_games := 5, total_defeats := 2\<rparr>]\<rparr>, Inr None)"
proof -
  have a: "get_current_game ex_store 2 = None"
    by (simp add: ex_defs get_current_game_def)
  have b: "stop_current_game ex_engine ex_store 1 False =
       (ex_store\<lparr>games := [ex_game\<lparr>is_active := False, who_win := Some ''b''\<rparr>],
                 users := [ex_user\<lparr>total_games := 5, total_defeats := 2\<rparr>]\<rparr>,
        Inr (Some (ex_eval, Some ''b'')))"
    by (simp add: ex_defs stop_defs)
  show ?thesis
    using a b stop_current_game_no_active [of ex_store 2 ex_engine True]
      stop_current_game_no_active [of ex_store 1 ex_engine False _ "(ex_eval, Some ''b'')"
        ex_engine True]
    by simp
qed

section \<open>The outcome of a stop\<close>

lemma stop_current_game_success:
  assumes "get_current_game s uid = Some g" and "ev (fen g) = Some e"
    and "get_user s uid = Some usr"
  shows "stop_current_game ev s uid r =
           (s\<lparr>games := deactivate_games uid (resolve_who_win r g e) (games s),
              users := update_user_stats uid usr g (resolve_who_win r g e) (users s)\<rparr>,
            Inr (Some (e, resolve_who_win r g e)))"
  using assms by (simp add: stop_current_game_def get_user_def Let_def)

lemma find_update_user_stats:
  "find (\<lambda>u. user_id u = uid) (update_user_stats uid usr g w us)
     = map_option (record_outcome usr g w) (find (\<lambda>u. user_id u = uid) us)"
  by (induction us) (auto simp: update_user_stats_def record_outcome_def)

lemma other_users_update_user_stats:
  "filter (\<lambda>u. user_id u \<noteq> uid) (update_user_stats uid usr g w us)
     = filter (\<lambda>u. user_id u \<noteq> uid) us"
  by (induction us) (auto simp: update_user_stats_def record_outcome_def)

text \<open>
  C3. When \<^verbatim>\<open>stop_current_game\<close> runs on an active game \<open>g\<close> of a registered user and the
  evaluation service answers \<open>e\<close>, it returns \<open>e\<close> with a winner \<open>w\<close> that is also written to
  the stopped rows, and \<open>w\<close> is resolved in this order: on resignation the colour opposite
  to the orientation of \<open>g\<close>, whatever \<open>e\<close> is; else, if \<open>e\<close> is terminal, the winner \<open>e\<close>
  reports (possibly none); else, if the end type is \<^verbatim>\<open>checkmate\<close>, White for a positive
  and Black for a negative value; else none.
\<close>

theorem stop_current_game_winner:
  assumes "get_current_game s uid = Some g" and "ev (fen g) = Some e"
    and "get_user s uid = Some usr"
  shows "\<exists>s' w. stop_current_game ev s uid r = (s', Inr (Some (e, w)))
           \<and> games s' = deactivate_games uid w (games s)
           \<and> (r \<longrightarrow> (orientation g = ''w'' \<longrightarrow> w = Some ''b'')
                    \<and> (orientation g = ''b'' \<longrightarrow> w = Some ''w''))
           \<and> (\<not> r \<and> is_end e \<longrightarrow> w = ev_who_win e)
           \<and> (\<not> r \<and> \<not> is_end e \<and> end_type e = ''checkmate'' \<and> 0 < ev_value e
                \<longrightarrow> w = Some ''w'')
           \<and> (\<not> r \<and> \<not> is_end e \<and> end_type e = ''checkmate'' \<and> ev_value e < 0
                \<longrightarrow> w = Some ''b'')
           \<and> (\<not> r \<and> \<not> is_end e \<and> end_type e \<noteq> ''checkmate'' \<longrightarrow> w = None)"
  using assms stop_current_game_success [of s uid g ev e usr r]
  by (simp add: resolve_who_win_def)

theorem stop_current_game_winner_witness:
  "get_current_game ex_store 1 = Some ex_game
   \<and> ex_engine (fen ex_game) = Some ex_eval
   \<and> get_user ex_store 1 = Some ex_user
   \<and> orientation ex_game = ''w''
   \<and> \<not> is_end ex_eval \<and> end_type ex_eval = ''checkmate'' \<and> ev_value ex_eval < 0
   \<and> snd (stop_current_game ex_engine ex_store 1 True) = Inr (Some (ex_eval, Some ''b''))
   \<and> snd (stop_current_game ex_engine ex_store 1 False) = Inr (Some (ex_eval, Some ''b''))"
proof -
  have a: "get_current_game ex_store 1 = Some ex_game"
    by (simp add: ex_defs get_current_game_def)
  have b: "ex_engine (fen ex_game) = Some ex_eval"
    by (simp add: ex_engine_def)
  have c: "get_user ex_store 1 = Some ex_user"
    by (simp add: ex_defs get_user_def)
  have d: "orientation ex_game = ''w''" "\<not> is_end ex_eval"
    "end_type ex_eval = ''checkmate''" "ev_value ex_eval < 0"
    by (simp_all add: ex_defs)
  show ?thesis
    using a b c d
      stop_current_game_winner [of ex_store 1 ex_game ex_engine ex_eval ex_user True]
      stop_current_game_winner [of ex_store 1 ex_game ex_engine ex_eval ex_user False]
    by auto
qed

text \<open>
  C2. When \<^verbatim>\<open>stop_current_game\<close> runs on an active game \<open>g\<close> of a registered user (row
  \<open>usr\<close>) and the evaluation service answers, the user's row afterwards has
  \<^verbatim>\<open>total_games\<close> one higher, \<^verbatim>\<open>total_wins\<close> one higher exactly when the winner is the
  orientation of \<open>g\<close>, \<^verbatim>\<open>total_defeats\<close> one higher exactly when there is a winner other
  than that orientation, \<^verbatim>\<open>total_draws\<close> one higher exactly when there is no winner, and
  the other counters as before; exactly one of the three is raised, so
  \<^verbatim>\<open>total_games = total_wins + total_defeats + total_draws\<close> is kept. The rows of other
  users are not touched.
\<close>

theorem stop_current_game_counters:
  assumes "get_current_game s uid = Some g" and "ev (fen g) = Some e"
    and "get_user s uid = Some usr"
  shows "\<exists>s' w usr'.
           stop_current_game ev s uid r = (s', Inr (Some (e, w)))
           \<and> get_user s' uid = Some usr'
           \<and> total_games usr' = total_games usr + 1
           \<and> total_wins usr' = total_wins usr + (if w = Some (orientation g) then 1 else 0)
           \<and> total_defeats usr' =
                total_defeats usr + (if w \<noteq> None \<and> w \<noteq> Some (orientation g) then 1 else 0)
           \<and> total_draws usr' = total_draws usr + (if w = None then 1 else 0)
           \<and> total_wins usr' + total_defeats usr' + total_draws usr' =
                total_wins usr + total_defeats usr + total_draws usr + 1
           \<and> (total_games usr = total_wins usr + total_defeats usr + total_draws usr
                \<longrightarrow> total_games usr' = total_wins usr' + total_defeats usr' + total_draws usr')
           \<and> filter (\<lambda>u. user_id u \<noteq> uid) (users s') = filter (\<lambda>u. user_id u \<noteq> uid) (users s)"
proof -
  let ?w = "resolve_who_win r g e"
  let ?s' = "s\<lparr>games := deactivate_games uid ?w (games s),
               users := update_user_stats uid usr g ?w (users s)\<rparr>"
  have run: "stop_current_game ev s uid r = (?s', Inr (Some (e, ?w)))"
    using assms by (rule stop_current_game_success [of s uid g ev e usr r])
  have row: "get_user ?s' uid = Some (record_outcome usr g ?w usr)"
    using assms(3) by (simp add: get_user_def find_update_user_stats)
  have others: "filter (\<lambda>u. user_id u \<noteq> uid) (users ?s')
                  = filter (\<lambda>u. user_id u \<noteq> uid) (users s)"
    by (simp add: other_users_update_user_stats)
  show ?thesis
    unfolding run
    using row others by (auto simp: record_outcome_def)
qed

theorem stop_current_game_counters_witness:
  "get_current_game ex_store 1 = Some ex_game
   \<and> ex_engine (fen ex_game) = Some ex_eval
   \<and> get_user ex_store 1 = Some ex_user
   \<and> (total_wins ex_user, total_defeats ex_user, total_draws ex_user, total_games ex_user)
       = (3, 1, 0, 4)
   \<and> (\<exists>usr'. get_user (fst (stop_current_game ex_engine ex_store 1 True)) 1 = Some usr'
        \<and> (total_wins usr', total_defeats usr', total_draws usr', total_games usr')
            = (3, 2, 0, 5))"
proof -
  have a: "get_current_game ex_store 1 = Some ex_game"
    by (simp add: ex_defs get_current_game_def)
  have b: "ex_engine (fen ex_game) = Some ex_eval"
    by (simp add: ex_engine_def)
  have c: "get_user ex_store 1 = Some ex_user"
    by (simp add: ex_defs get_user_def)
  have d: "(total_wins ex_user, total_defeats ex_user, total_draws ex_user, total_games ex_user)
       = (3, 1, 0, 4)" "orientation ex_game = ''w''"
    by (simp_all add: ex_defs)
  have w: "snd (stop_current_game ex_engine ex_store 1 True) = Inr (Some (ex_eval, Some ''b''))"
    by (simp add: ex_defs stop_defs)
  show ?thesis
    using a b c d w
      stop_current_game_counters [of ex_store 1 ex_game ex_engine ex_eval ex_user True]
    by auto
qed

section \<open>Starting a game\<close>

lemma create_new_game_no_old:
  assumes "ori = ''w'' \<or> ori = ''b''" and "get_current_game s uid = None"
  shows "create_new_game ev s uid ori = (s\<lparr>games := games s @ [new_game uid ori]\<rparr>, Inr False)"
  using assms by (auto simp: create_new_game_def stop_current_game_def)

lemma create_new_game_old:
  assumes "ori = ''w'' \<or> ori = ''b''" and "get_current_game s uid = Some g"
    and "ev (fen g) = Some e" and "get_user s uid = Some usr"
  shows "create_new_game ev s uid ori =
           (s\<lparr>games := deactivate_games uid (resolve_who_win True g e) (games s)
                         @ [new_game uid ori],
              users := update_user_stats uid usr g (resolve_who_win True g e) (users s)\<rparr>,
            Inr True)"
  using assms stop_current_game_success [of s uid g ev e usr True]
  by (auto simp: create_new_game_def)

lemma active_new_game:
  "filter (\<lambda>g. g_user_id g = uid' \<and> is_active g) [new_game uid ori]
     = (if uid' = uid then [new_game uid ori] else [])"
  by (simp add: new_game_def)

text \<open>
  C5. For an orientation other than \<^verbatim>\<open>w\<close> and \<^verbatim>\<open>b\<close>, \<^verbatim>\<open>create_new_game\<close> raises
  \<^verbatim>\<open>ValueError\<close> and the store is the one before the call: no Game row is added, no
  game is stopped, no counter changes, whatever the evaluation service would answer.
\<close>

theorem create_new_game_bad_orientation:
  assumes "ori \<noteq> ''w''" and "ori \<noteq> ''b''"
  shows "create_new_game ev s uid ori = (s, Inl ValueError)"
  using assms by (simp add: create_new_game_def)

theorem create_new_game_bad_orientation_witness:
  "''x'' \<noteq> ''w'' \<and> ''x'' \<noteq> ''b''
   \<and> create_new_game ex_engine ex_store 1 ''x'' = (ex_store, Inl ValueError)
   \<and> create_new_game ex_engine ex_store 1 ''white'' = (ex_store, Inl ValueError)
   \<and> create_new_game ex_engine empty_store 1 [] = (empty_store, Inl ValueError)"
  using create_new_game_bad_orientation [of "''x''" ex_engine ex_store 1]
    create_new_game_bad_orientation [of "''white''" ex_engine ex_store 1]
    create_new_game_bad_orientation [of "[]" ex_engine empty_store 1]
  by simp

text \<open>
  C6. For an orientation \<^verbatim>\<open>w\<close> or \<^verbatim>\<open>b\<close>, and provided the stop of the old game does not
  fail (the user has no active game, or the evaluation service answers on the position of
  the old game and the user's row exists), \<^verbatim>\<open>create_new_game\<close> returns, the user's
  active Game rows afterwards are exactly the one new row with the given orientation, the
  returned flag is true exactly when the user had an active row before the call, and the
  active rows of every other user are as before.
\<close>

theorem create_new_game_one_active:
  assumes "ori = ''w'' \<or> ori = ''b''"
    and "get_current_game s uid = None
         \<or> (\<exists>g. get_current_game s uid = Some g \<and> ev (fen g) \<noteq> None \<and> get_user s uid \<noteq> None)"
  shows "\<exists>s'. create_new_game ev s uid ori = (s', Inr (active_games s uid \<noteq> []))
           \<and> active_games s' uid = [new_game uid ori]
           \<and> length (active_games s' uid) = 1
           \<and> orientation (hd (active_games s' uid)) = ori
           \<and> (uid' \<noteq> uid \<longrightarrow> active_games s' uid' = active_games s uid')"
proof (cases "get_current_game s uid")
  case None
  then have "active_games s uid = []"
    by (simp add: get_current_game_None_iff)
  then show ?thesis
    using create_new_game_no_old [OF assms(1) None, of ev]
    by (auto simp: active_games_def new_game_def)
next
  case (Some g)
  then obtain e usr where e: "ev (fen g) = Some e" and u: "get_user s uid = Some usr"
    using assms(2) by auto
  have "active_games s uid \<noteq> []"
    using Some get_current_game_None_iff [of s uid] by simp
  then show ?thesis
    using create_new_game_old [of ori s uid g ev e usr, OF assms(1) Some e u]
    by (auto simp: active_games_def active_games_deactivate_same
        active_games_deactivate_other new_game_def)
qed

theorem create_new_game_one_active_witness:
  "active_games ex_store 1 = [ex_game]
   \<and> snd (create_new_game ex_engine ex_store 1 ''b'') = Inr True
   \<and> active_games (fst (create_new_game ex_engine ex_store 1 ''b'')) 1 = [new_game 1 ''b'']
   \<and> active_games ex_store 2 = []
   \<and> snd (create_new_game ex_engine ex_store 2 ''w'') = Inr False
   \<and> active_games (fst (create_new_game ex_engine ex_store 2 ''w'')) 2 = [new_game 2 ''w'']
   \<and> active_games (fst (create_new_game ex_engine ex_store 2 ''w'')) 1 = [ex_game]"
proof -
  have a: "active_games ex_store 1 = [ex_game]" "active_games ex_store 2 = []"
    by (simp_all add: ex_defs active_games_def)
  have h1: "get_current_game ex_store 1 = None
         \<or> (\<exists>g. get_current_game ex_store 1 = Some g \<and> ex_engine (fen g) \<noteq> None
                \<and> get_user ex_store 1 \<noteq> None)"
    by (simp add: ex_defs get_current_game_def get_user_def)
  have h2: "get_current_game ex_store 2 = None
         \<or> (\<exists>g. get_current_game ex_store 2 = Some g \<and> ex_engine (fen g) \<noteq> None
                \<and> get_user ex_store 2 \<noteq> None)"
    by (simp add: ex_defs get_current_game_def)
  show ?thesis
    using a create_new_game_one_active [of "''b''" ex_store 1 ex_engine 2, OF _ h1]
      create_new_game_one_active [of "''w''" ex_store 2 ex_engine 1, OF _ h2]
    by auto
qed

lemma get_current_game_in_games:
  "get_current_game s uid = Some g \<Longrightarrow> g \<in> set (games s) \<and> g_user_id g = uid \<and> is_active g"
  by (auto simp: get_current_game_def find_Some_iff)

text \<open>
  C10. When \<^verbatim>\<open>create_new_game\<close> finds an active game \<open>g\<close> of the user, it first stops it
  as a resignation: the winner \<open>w\<close> written to the stopped rows is the colour opposite to
  the orientation of \<open>g\<close>, the user's \<^verbatim>\<open>total_games\<close> and \<^verbatim>\<open>total_defeats\<close> are raised
  by one and the other two counters stay, and only then the new active row is appended;
  the call returns \<open>True\<close>. The evaluation service is asked about the position of \<open>g\<close>:
  with a service that fails on that position the call ends with the service's error and
  the store is as before.
\<close>

theorem create_new_game_displaces:
  assumes "ori = ''w'' \<or> ori = ''b''" and "get_current_game s uid = Some g"
    and "ev (fen g) = Some e" and "get_user s uid = Some usr"
    and "orientation g = ''w'' \<or> orientation g = ''b''"
  shows "\<exists>s' w usr'.
           create_new_game ev s uid ori = (s', Inr True)
           \<and> stop_current_game ev s uid True = (s'\<lparr>games := butlast (games s')\<rparr>, Inr (Some (e, w)))
           \<and> games s' = deactivate_games uid w (games s) @ [new_game uid ori]
           \<and> g\<lparr>is_active := False, who_win := w\<rparr> \<in> set (games s')
           \<and> (w = Some ''w'' \<or> w = Some ''b'') \<and> w \<noteq> Some (orientation g)
           \<and> get_user s' uid = Some usr'
           \<and> total_games usr' = total_games usr + 1
           \<and> total_defeats usr' = total_defeats usr + 1
           \<and> total_wins usr' = total_wins usr
           \<and> total_draws usr' = total_draws usr
           \<and> (ev' (fen g) = None \<longrightarrow>
                create_new_game ev' s uid ori = (s, Inl UpstreamServiceError))"
proof -
  let ?w = "resolve_who_win True g e"
  let ?s' = "s\<lparr>games := deactivate_games uid ?w (games s) @ [new_game uid ori],
               users := update_user_stats uid usr g ?w (users s)\<rparr>"
  have run: "create_new_game ev s uid ori = (?s', Inr True)"
    using assms(1-4) by (rule create_new_game_old)
  have stop: "stop_current_game ev s uid True = (?s'\<lparr>games := butlast (games ?s')\<rparr>, Inr (Some (e, ?w)))"
    using stop_current_game_success [of s uid g ev e usr True] assms(2-4) by simp
  have "g \<in> set (games s)" "g_user_id g = uid" "is_active g"
    using get_current_game_in_games [OF assms(2)] by simp_all
  then have row: "g\<lparr>is_active := False, who_win := ?w\<rparr> \<in> set (games ?s')"
    by (force simp: deactivate_games_def)
  have w: "(?w = Some ''w'' \<or> ?w = Some ''b'') \<and> ?w \<noteq> Some (orientation g)"
    using assms(5) by (auto simp: resolve_who_win_def)
  have usr: "get_user ?s' uid = Some (record_outcome usr g ?w usr)"
    using assms(4) by (simp add: get_user_def find_update_user_stats)
  have fail: "ev' (fen g) = None \<longrightarrow>
                create_new_game ev' s uid ori = (s, Inl UpstreamServiceError)"
    using assms(1,2) by (auto simp: create_new_game_def stop_current_game_def)
  show ?thesis
    unfolding run
    using stop row w usr fail by (auto simp: record_outcome_def)
qed

theorem create_new_game_displaces_witness:
  "get_current_game ex_store 1 = Some ex_game
   \<and> ex_engine (fen ex_game) = Some ex_eval
   \<and> get_user ex_store 1 = Some ex_user
   \<and> orientation ex_game = ''w''
   \<and> total_games ex_user = 4 \<and> total_defeats ex_user = 1
   \<and> snd (create_new_game ex_engine ex_store 1 ''b'') = Inr True
   \<and> (\<exists>usr'. get_user (fst (create_new_game ex_engine ex_store 1 ''b'')) 1 = Some usr'
         \<and> total_games usr' = 5 \<and> total_defeats usr' = 2)
   \<and> create_new_game (\<lambda>f. None) ex_store 1 ''b'' = (ex_store, Inl UpstreamServiceError)"
proof -
  have a: "get_current_game ex_store 1 = Some ex_game"
    by (simp add: ex_defs get_current_game_def)
  have b: "ex_engine (fen ex_game) = Some ex_eval"
    by (simp add: ex_engine_def)
  have c: "get_user ex_store 1 = Some ex_user"
    by (simp add: ex_defs get_user_def)
  have d: "orientation ex_game = ''w''" "total_games ex_user = 4" "total_defeats ex_user = 1"
    by (simp_all add: ex_defs)
  have o: "''b'' = ''w'' \<or> ''b'' = ''b''"
    by simp
  have og: "orientation ex_game = ''w'' \<or> orientation ex_game = ''b''"
    using d(1) by simp
  from create_new_game_displaces [of "''b''" ex_store 1 ex_game ex_engine ex_eval ex_user
      "\<lambda>f. None", OF o a b c og]
  obtain s' usr' where
    r: "create_new_game ex_engine ex_store 1 ''b'' = (s', Inr True)" and
    u: "get_user s' 1 = Some usr'" "total_games usr' = total_games ex_user + 1"
      "total_defeats usr' = total_defeats ex_user + 1" and
    f: "create_new_game (\<lambda>f. None) ex_store 1 ''b'' = (ex_store, Inl UpstreamServiceError)"
    by blast
  have "\<exists>usr'. get_user (fst (create_new_game ex_engine ex_store 1 ''b'')) 1 = Some usr'
         \<and> total_games usr' = 5 \<and> total_defeats usr' = 2"
    using r u d by simp
  moreover have "snd (create_new_game ex_engine ex_store 1 ''b'') = Inr True"
    using r by simp
  ultimately show ?thesis
    using a b c d f by blast
qed

section \<open>At most one active game\<close>

lemma active_games_stop:
  "length (active_games (fst (stop_current_game ev s uid r)) uid')
     \<le> length (active_games s uid')"
proof -
  obtain s' res where run: "stop_current_game ev s uid r = (s', res)"
    by (cases "stop_current_game ev s uid r")
  from stop_current_game_cases [OF run] show ?thesis
    unfolding run
    by (cases "uid' = uid")
       (auto simp: active_games_def active_games_deactivate_same active_games_deactivate_other)
qed

lemma stop_current_game_None:
  "stop_current_game ev s uid r = (s', Inr None) \<Longrightarrow> get_current_game s uid = None \<and> s' = s"
  by (auto simp: stop_current_game_def Let_def split: option.splits)

lemma active_games_create_new_game_same:
  assumes "create_new_game ev s uid ori = (s', Inr b)"
  shows "active_games s' uid = [new_game uid ori]"
proof -
  obtain s1 r where stop: "stop_current_game ev s uid True = (s1, Inr r)"
    and s': "s' = s1\<lparr>games := games s1 @ [new_game uid ori]\<rparr>"
    using assms
    by (auto simp: create_new_game_def split: if_splits prod.splits sum.splits)
  have "active_games s1 uid = []"
  proof (cases r)
    case None
    then show ?thesis
      using stop_current_game_None [of ev s uid True s1] stop
      by (simp add: get_current_game_None_iff)
  next
    case (Some x)
    then show ?thesis
      using active_games_after_stop [of ev s uid True s1 x] stop by simp
  qed
  then show ?thesis
    by (simp add: s' active_games_def new_game_def)
qed

lemma active_games_create_new_game_other:
  assumes "create_new_game ev s uid ori = (s', Inr b)" and "uid' \<noteq> uid"
  shows "active_games s' uid' = active_games s uid'"
proof -
  obtain s1 r where stop: "stop_current_game ev s uid True = (s1, Inr r)"
    and s': "s' = s1\<lparr>games := games s1 @ [new_game uid ori]\<rparr>"
    using assms(1)
    by (auto simp: create_new_game_def split: if_splits prod.splits sum.splits)
  from stop_current_game_cases [OF stop] have "active_games s1 uid' = active_games s uid'"
    using assms(2) by (auto simp: active_games_def active_games_deactivate_other)
  then show ?thesis
    using assms(2) by (simp add: s' active_games_def new_game_def)
qed

lemma active_games_create_new_game:
  assumes "length (active_games s uid') \<le> 1"
  shows "length (active_games (fst (create_new_game ev s uid ori)) uid') \<le> 1"
proof -
  obtain s' res where run: "create_new_game ev s uid ori = (s', res)"
    by (cases "create_new_game ev s uid ori")
  show ?thesis
  proof (cases res)
    case (Inl x)
    then have "s' = s \<or> s' = fst (stop_current_game ev s uid True)"
      using run by (auto simp: create_new_game_def split: if_splits prod.splits sum.splits)
    then show ?thesis
      using assms active_games_stop [of ev s uid True uid'] by (auto simp: run)
  next
    case (Inr b)
    show ?thesis
    proof (cases "uid' = uid")
      case True
      then show ?thesis
        using active_games_create_new_game_same [of ev s uid ori s' b] run Inr by simp
    next
      case False
      then show ?thesis
        using assms active_games_create_new_game_other [of ev s uid ori s' b uid'] run Inr
        by simp
    qed
  qed
qed

lemma active_games_advance:
  "filter (\<lambda>g. g_user_id g = uid' \<and> is_active g) (advance_games uid pm lm ch f gs)
     = map (\<lambda>g. if g_user_id g = uid \<and> is_active g
               then g\<lparr>prev_moves := pm, fen := f, last_move := Some lm, check := ch\<rparr>
               else g)
         (filter (\<lambda>g. g_user_id g = uid' \<and> is_active g) gs)"
  by (induction gs) (auto simp: advance_games_def)

lemma active_games_update_current_game:
  "length (active_games (fst (update_current_game s uid pm lm ch f)) uid')
     = length (active_games s uid')"
  by (auto simp: update_current_game_def active_games_def active_games_advance
      split: option.splits)

lemma games_create_new_user: "games (fst (create_new_user d now s uid nm)) = games s"
  by (auto simp: create_new_user_def split: option.splits sum.splits)

lemma games_update_settings: "games (fst (update_settings lim s uid ps)) = games s"
  by (auto simp: update_settings_def Let_def split: option.splits)

lemma reachable_at_most_one: "reachable s \<Longrightarrow> length (active_games s uid) \<le> 1"
proof (induction rule: reachable.induct)
  case init
  show ?case by (simp add: empty_store_def active_games_def)
next
  case (new_user s d now uid' nm)
  then show ?case by (simp add: active_games_def games_create_new_user)
next
  case (new_game s ev uid' ori)
  from new_game.IH show ?case by (rule active_games_create_new_game)
next
  case (advance s uid' pm lm ch f)
  then show ?case by (simp add: active_games_update_current_game)
next
  case (stop s ev uid' r)
  then show ?case
    using active_games_stop [of ev s uid' r uid] by simp
next
  case (settings s lim uid' ps)
  then show ?case by (simp add: active_games_def games_update_settings)
qed

lemma ex_registered_eval:
  "users ex_registered = [new_user 1 ''ann'' 10] \<and> games ex_registered = []"
  by (simp add: ex_registered_def create_new_user_def get_user_def empty_store_def
      ex_defaults_def settings_async_init_def insert_settings_def settings_columns_def
      required_columns_def)

lemma ex_playing_eval:
  "users ex_playing = [new_user 1 ''ann'' 10] \<and> games ex_playing = [new_game 1 ''w'']"
  using ex_registered_eval
  by (simp add: ex_playing_def create_new_game_def stop_current_game_def get_current_game_def)

lemma ex_replayed_eval:
  "users ex_replayed = [(new_user 1 ''ann'' 10)\<lparr>total_games := 1, total_defeats := 1\<rparr>]
   \<and> games ex_replayed =
       [(new_game 1 ''w'')\<lparr>is_active := False, who_win := Some ''b''\<rparr>, new_game 1 ''b'']"
  using ex_playing_eval
  by (simp add: ex_replayed_def create_new_game_def stop_defs ex_engine_def new_game_def
      new_user_def)

lemma create_new_game_returns_games:
  assumes "create_new_game ev s uid ori = (s', Inr b)"
  shows "\<exists>gs. games s' = gs @ [new_game uid ori] \<and> length gs = length (games s)
           \<and> filter (\<lambda>g. g_user_id g = uid \<and> is_active g) gs = []"
proof -
  obtain s1 r where stop: "stop_current_game ev s uid True = (s1, Inr r)"
    and s': "s' = s1\<lparr>games := games s1 @ [new_game uid ori]\<rparr>"
    using assms
    by (auto simp: create_new_game_def split: if_splits prod.splits sum.splits)
  have "active_games (s1\<lparr>games := games s1 @ [new_game uid ori]\<rparr>) uid = [new_game uid ori]"
    using active_games_create_new_game_same [OF assms] s' by simp
  then have old: "filter (\<lambda>g. g_user_id g = uid \<and> is_active g) (games s1) = []"
    by (simp add: active_games_def new_game_def)
  from stop_current_game_cases [OF stop] have "length (games s1) = length (games s)"
    by (auto simp: deactivate_games_def)
  then show ?thesis
    using old s' by simp
qed

text \<open>
  C1. In every store reachable from the empty store by calls of \<^verbatim>\<open>create_new_user\<close>,
  \<^verbatim>\<open>create_new_game\<close>, \<^verbatim>\<open>update_current_game\<close>, \<^verbatim>\<open>stop_current_game\<close> and
  \<^verbatim>\<open>update_settings\<close>, run one after the other, every user has at most one active Game
  row. Each of the three session operations keeps this for every user, from any store.
  When \<^verbatim>\<open>create_new_game\<close> returns, the rows that were in the table before hold no
  active row of the user any more and the one row appended after them is the new active
  row.
\<close>

theorem at_most_one_active_game:
  "(reachable s \<longrightarrow> length (active_games s uid) \<le> 1)
   \<and> (length (active_games s uid) \<le> 1 \<longrightarrow>
        length (active_games (fst (create_new_game ev s uid' ori)) uid) \<le> 1
        \<and> length (active_games (fst (update_current_game s uid' pm lm ch f)) uid) \<le> 1
        \<and> length (active_games (fst (stop_current_game ev s uid' r)) uid) \<le> 1)
   \<and> (create_new_game ev s uid ori = (s', Inr b) \<longrightarrow>
        active_games s' uid = [new_game uid ori]
        \<and> (\<exists>gs. games s' = gs @ [new_game uid ori] \<and> length gs = length (games s)
              \<and> filter (\<lambda>g. g_user_id g = uid \<and> is_active g) gs = []))"
proof (intro conjI impI)
  assume "reachable s"
  then show "length (active_games s uid) \<le> 1"
    by (rule reachable_at_most_one)
next
  assume "length (active_games s uid) \<le> 1"
  then show "length (active_games (fst (create_new_game ev s uid' ori)) uid) \<le> 1"
    by (rule active_games_create_new_game)
next
  assume "length (active_games s uid) \<le> 1"
  then show "length (active_games (fst (update_current_game s uid' pm lm ch f)) uid) \<le> 1"
    by (simp add: active_games_update_current_game)
next
  assume "length (active_games s uid) \<le> 1"
  then show "length (active_games (fst (stop_current_game ev s uid' r)) uid) \<le> 1"
    using active_games_stop [of ev s uid' r uid] by simp
next
  assume "create_new_game ev s uid ori = (s', Inr b)"
  then show "active_games s' uid = [new_game uid ori]"
    by (rule active_games_create_new_game_same)
next
  assume "create_new_game ev s uid ori = (s', Inr b)"
  then show "\<exists>gs. games s' = gs @ [new_game uid ori] \<and> length gs = length (games s)
              \<and> filter (\<lambda>g. g_user_id g = uid \<and> is_active g) gs = []"
    by (rule create_new_game_returns_games)
qed

theorem at_most_one_active_game_witness:
  "reachable ex_replayed
   \<and> games ex_replayed =
       [(new_game 1 ''w'')\<lparr>is_active := False, who_win := Some ''b''\<rparr>, new_game 1 ''b'']
   \<and> active_games ex_replayed 1 = [new_game 1 ''b'']
   \<and> length (active_games ex_replayed 1) \<le> 1"
proof -
  have r: "reachable ex_replayed"
    unfolding ex_replayed_def ex_playing_def ex_registered_def
    by (intro reachable.intros)
  have g: "games ex_replayed =
       [(new_game 1 ''w'')\<lparr>is_active := False, who_win := Some ''b''\<rparr>, new_game 1 ''b'']"
    using ex_replayed_eval by simp
  then have a: "active_games ex_replayed 1 = [new_game 1 ''b'']"
    by (simp add: active_games_def new_game_def)
  show ?thesis
    using r g a at_most_one_active_game [of ex_replayed 1] by blast
qed

section \<open>Settings\<close>

lemma fst_clamp_param: "fst (clamp_param lim pv) = fst pv"
  by (cases pv) (simp add: clamp_param_def split: option.splits)

lemma map_fst_clamp_param: "map fst (map (clamp_param lim) ps) = map fst ps"
  by (induction ps) (simp_all add: fst_clamp_param)

lemma clamp_param_absent: "lim p = None \<Longrightarrow> clamp_param lim (p, v) = (p, v)"
  by (simp add: clamp_param_def)

lemma clamp_param_present:
  "lim p = Some l \<Longrightarrow> l ''min'' = Some lo \<Longrightarrow> l ''max'' = Some hi \<Longrightarrow>
   clamp_param lim (p, v) = (p, max (min v hi) lo)"
  by (simp add: clamp_param_def)

lemma map_of_clamped:
  assumes "distinct (map fst ps)" and "(p, v) \<in> set ps"
  shows "map_of (map (clamp_param lim) ps) p = Some (snd (clamp_param lim (p, v)))"
proof -
  have "distinct (map fst (map (clamp_param lim) ps))"
    using assms(1) by (simp only: map_fst_clamp_param)
  moreover have "(p, snd (clamp_param lim (p, v))) \<in> set (map (clamp_param lim) ps)"
  proof -
    have "clamp_param lim (p, v) \<in> set (map (clamp_param lim) ps)"
      using assms(2) by simp
    moreover have "clamp_param lim (p, v) = (p, snd (clamp_param lim (p, v)))"
      using fst_clamp_param [of lim "(p, v)"] by (cases "clamp_param lim (p, v)") simp
    ultimately show ?thesis by simp
  qed
  ultimately show ?thesis
    by (rule map_of_is_SomeI)
qed

lemma find_apply_params:
  "find (\<lambda>r. s_user_id r = uid) (apply_params uid ps rows)
     = map_option (\<lambda>r. r\<lparr>s_params := s_params r ++ map_of ps\<rparr>)
         (find (\<lambda>r. s_user_id r = uid) rows)"
  by (induction rows) (auto simp: apply_params_def)

lemma other_rows_apply_params:
  "filter (\<lambda>r. s_user_id r \<noteq> uid) (apply_params uid ps rows)
     = filter (\<lambda>r. s_user_id r \<noteq> uid) rows"
  by (induction rows) (auto simp: apply_params_def)

lemma update_settings_run:
  assumes "list_all (\<lambda>(k, v). k \<in> set settings_columns) params"
  shows "update_settings (Some lim) s uid params =
           (s\<lparr>settings_rows := apply_params uid (map (clamp_param lim) params) (settings_rows s)\<rparr>,
            Inr (map (clamp_param lim) params))"
proof -
  have "list_all (\<lambda>(k, v). k \<in> set settings_columns) (map (clamp_param lim) params)"
    using assms fst_clamp_param [of lim]
    by (auto simp: list_all_iff split: prod.splits) (metis fst_conv)
  then show ?thesis
    by (simp add: update_settings_def Let_def)
qed

text \<open>
  C7. \<^verbatim>\<open>update_settings\<close> with parameters that are columns of the Settings table, one
  value per name, and an answering limits service returns a map with the same names in
  the same order. A parameter \<open>p\<close> with value \<open>v\<close> that the limits do not name keeps \<open>v\<close>; one
  for which the limits give \<open>min \<le> max\<close> gets a value between the two, namely \<open>v\<close> itself
  when it lies between them, \<open>min\<close> when it is below and \<open>max\<close> when it is above. The user's
  Settings row afterwards holds, for \<open>p\<close>, exactly the returned value, its other columns
  and the rows of other users are as before, and users and games are not touched.
\<close>

theorem update_settings_clamps:
  assumes "list_all (\<lambda>(k, v). k \<in> set settings_columns) params"
    and "distinct (map fst params)"
    and "(p, v) \<in> set params"
  shows "\<exists>s' ps'.
           update_settings (Some lim) s uid params = (s', Inr ps')
           \<and> map fst ps' = map fst params
           \<and> (lim p = None \<longrightarrow> map_of ps' p = Some v)
           \<and> (\<forall>l lo hi. lim p = Some l \<and> l ''min'' = Some lo \<and> l ''max'' = Some hi \<and> lo \<le> hi
                \<longrightarrow> (\<exists>v'. map_of ps' p = Some v' \<and> lo \<le> v' \<and> v' \<le> hi
                       \<and> (lo \<le> v \<and> v \<le> hi \<longrightarrow> v' = v)
                       \<and> (v < lo \<longrightarrow> v' = lo) \<and> (hi < v \<longrightarrow> v' = hi)))
           \<and> (\<forall>r. get_settings s uid = Some r \<longrightarrow>
                (\<exists>r'. get_settings s' uid = Some r' \<and> s_params r' p = map_of ps' p
                   \<and> (\<forall>k. k \<notin> fst ` set params \<longrightarrow> s_params r' k = s_params r k)))
           \<and> filter (\<lambda>r. s_user_id r \<noteq> uid) (settings_rows s')
               = filter (\<lambda>r. s_user_id r \<noteq> uid) (settings_rows s)
           \<and> users s' = users s \<and> games s' = games s"
proof -
  let ?ps = "map (clamp_param lim) params"
  let ?s' = "s\<lparr>settings_rows := apply_params uid ?ps (settings_rows s)\<rparr>"
  have run: "update_settings (Some lim) s uid params = (?s', Inr ?ps)"
    using assms(1) by (rule update_settings_run)
  have val: "map_of ?ps p = Some (snd (clamp_param lim (p, v)))"
    using assms(2,3) by (rule map_of_clamped)
  have absent: "lim p = None \<longrightarrow> map_of ?ps p = Some v"
    using val by (simp add: clamp_param_absent)
  have present: "\<forall>l lo hi. lim p = Some l \<and> l ''min'' = Some lo \<and> l ''max'' = Some hi \<and> lo \<le> hi
                \<longrightarrow> (\<exists>v'. map_of ?ps p = Some v' \<and> lo \<le> v' \<and> v' \<le> hi
                       \<and> (lo \<le> v \<and> v \<le> hi \<longrightarrow> v' = v)
                       \<and> (v < lo \<longrightarrow> v' = lo) \<and> (hi < v \<longrightarrow> v' = hi))"
    using val by (auto simp: clamp_param_present)
  have row: "\<forall>r. get_settings s uid = Some r \<longrightarrow>
                (\<exists>r'. get_settings ?s' uid = Some r' \<and> s_params r' p = map_of ?ps p
                   \<and> (\<forall>k. k \<notin> fst ` set params \<longrightarrow> s_params r' k = s_params r k))"
  proof (intro allI impI)
    fix r assume r: "get_settings s uid = Some r"
    let ?r' = "r\<lparr>s_params := s_params r ++ map_of ?ps\<rparr>"
    have "get_settings ?s' uid = Some ?r'"
      using r by (simp add: get_settings_def find_apply_params)
    moreover have "s_params ?r' p = map_of ?ps p"
      using val by (simp add: map_add_def)
    moreover have "\<forall>k. k \<notin> fst ` set params \<longrightarrow> s_params ?r' k = s_params r k"
    proof (intro allI impI)
      fix k assume "k \<notin> fst ` set params"
      then have "k \<notin> fst ` set ?ps"
        using map_fst_clamp_param [of lim params] by (metis set_map)
      then have "map_of ?ps k = None"
        by (simp add: map_of_eq_None_iff)
      then show "s_params ?r' k = s_params r k"
        by (simp add: map_add_def)
    qed
    ultimately show "\<exists>r'. get_settings ?s' uid = Some r' \<and> s_params r' p = map_of ?ps p
                   \<and> (\<forall>k. k \<notin> fst ` set params \<longrightarrow> s_params r' k = s_params r k)"
      by blast
  qed
  have others: "filter (\<lambda>r. s_user_id r \<noteq> uid) (settings_rows ?s')
               = filter (\<lambda>r. s_user_id r \<noteq> uid) (settings_rows s)"
    by (simp add: other_rows_apply_params)
  show ?thesis
    unfolding run
    using map_fst_clamp_param [of lim params] absent present row others
    by (intro exI [of _ ?s'] exI [of _ ?ps]) simp
qed

lemma ex_registered_settings: "\<exists>r. get_settings ex_registered 1 = Some r"
  by (simp add: ex_registered_def create_new_user_def get_user_def empty_store_def
      ex_defaults_def settings_async_init_def insert_settings_def settings_columns_def
      required_columns_def get_settings_def)

theorem update_settings_clamps_witness:
  "list_all (\<lambda>(k, v). k \<in> set settings_columns) ex_params
   \<and> distinct (map fst ex_params)
   \<and> (''elo'', 5000) \<in> set ex_params
   \<and> snd (update_settings (Some ex_limits) ex_registered 1 ex_params)
       = Inr [(''elo'', 3000), (''depth'', 5), (''size'', 400)]
   \<and> (\<exists>r'. get_settings (fst (update_settings (Some ex_limits) ex_registered 1 ex_params)) 1
              = Some r'
         \<and> s_params r' ''elo'' = Some 3000)"
proof -
  have h1: "list_all (\<lambda>(k, v). k \<in> set settings_columns) ex_params"
    by (simp add: ex_params_def settings_columns_def)
  have h2: "distinct (map fst ex_params)"
    by (simp add: ex_params_def)
  have h3: "(''elo'', 5000) \<in> set ex_params"
    by (simp add: ex_params_def)
  have res: "snd (update_settings (Some ex_limits) ex_registered 1 ex_params)
       = Inr [(''elo'', 3000), (''depth'', 5), (''size'', 400)]"
    unfolding update_settings_run [OF h1]
    by (simp add: ex_params_def ex_limits_def clamp_param_def)
  obtain r where r: "get_settings ex_registered 1 = Some r"
    using ex_registered_settings by blast
  from update_settings_clamps [of ex_params "''elo''" 5000 ex_limits ex_registered 1,
      OF h1 h2 h3]
  obtain s' ps' where
    run: "update_settings (Some ex_limits) ex_registered 1 ex_params = (s', Inr ps')" and
    row: "\<forall>r. get_settings ex_registered 1 = Some r \<longrightarrow>
            (\<exists>r'. get_settings s' 1 = Some r' \<and> s_params r' ''elo'' = map_of ps' ''elo''
               \<and> (\<forall>k. k \<notin> fst ` set ex_params \<longrightarrow> s_params r' k = s_params r k))"
    by blast
  have ps': "ps' = [(''elo'', 3000), (''depth'', 5), (''size'', 400)]"
    using res run by simp
  obtain r' where "get_settings s' 1 = Some r'" "s_params r' ''elo'' = map_of ps' ''elo''"
    using row r by blast
  then have "\<exists>r'. get_settings (fst (update_settings (Some ex_limits) ex_registered 1 ex_params)) 1
              = Some r' \<and> s_params r' ''elo'' = Some 3000"
    using run ps' by simp
  then show ?thesis
    using h1 h2 h3 res by blast
qed

section \<open>Registering a user\<close>

lemma user_ids_update_user_stats:
  "map user_id (update_user_stats uid usr g w us) = map user_id us"
  by (induction us) (auto simp: update_user_stats_def record_outcome_def)

lemma settings_ids_apply_params:
  "map s_user_id (apply_params uid ps rows) = map s_user_id rows"
  by (induction rows) (auto simp: apply_params_def)

lemma ids_stop_current_game:
  "map user_id (users (fst (stop_current_game ev s uid r))) = map user_id (users s)
   \<and> settings_rows (fst (stop_current_game ev s uid r)) = settings_rows s"
  by (auto simp: stop_current_game_def Let_def user_ids_update_user_stats split: option.splits)

lemma ids_create_new_game:
  "map user_id (users (fst (create_new_game ev s uid ori))) = map user_id (users s)
   \<and> settings_rows (fst (create_new_game ev s uid ori)) = settings_rows s"
proof -
  obtain s1 res where stop: "stop_current_game ev s uid True = (s1, res)"
    by (cases "stop_current_game ev s uid True")
  then show ?thesis
    using ids_stop_current_game [of ev s uid True]
    by (auto simp: create_new_game_def split: sum.splits)
qed

lemma ids_update_current_game:
  "users (fst (update_current_game s uid pm lm ch f)) = users s
   \<and> settings_rows (fst (update_current_game s uid pm lm ch f)) = settings_rows s"
  by (auto simp: update_current_game_def split: option.splits)

lemma ids_update_settings:
  "users (fst (update_settings lim s uid ps)) = users s
   \<and> map s_user_id (settings_rows (fst (update_settings lim s uid ps)))
       = map s_user_id (settings_rows s)"
  by (auto simp: update_settings_def Let_def settings_ids_apply_params split: option.splits)

lemma get_user_None_iff: "get_user s uid = None \<longleftrightarrow> uid \<notin> set (map user_id (users s))"
  by (auto simp: get_user_def find_None_iff)

lemma settings_async_init_owner:
  "settings_async_init d uid = Inr row \<Longrightarrow> s_user_id row = uid"
  by (auto simp: settings_async_init_def Let_def split: option.splits if_splits)

lemma insert_settings_rows:
  "insert_settings row rows = Inr rows' \<Longrightarrow>
   \<exists>row'. rows' = rows @ [row'] \<and> s_user_id row' = s_user_id row"
  by (auto simp: insert_settings_def split: if_splits)

lemma create_new_user_cases:
  "create_new_user d now s uid nm = (s, Inr ()) \<and> get_user s uid \<noteq> None
   \<or> (\<exists>x. create_new_user d now s uid nm = (s, Inl x)) \<and> get_user s uid = None
   \<or> (\<exists>row. create_new_user d now s uid nm =
          (s\<lparr>users := users s @ [new_user uid nm now],
             settings_rows := settings_rows s @ [row]\<rparr>, Inr ())
        \<and> s_user_id row = uid) \<and> get_user s uid = None"
proof (cases "get_user s uid")
  case (Some u)
  then show ?thesis by (simp add: create_new_user_def)
next
  case None
  show ?thesis
  proof (cases "settings_async_init d uid")
    case (Inl x)
    then show ?thesis using None by (simp add: create_new_user_def)
  next
    case (Inr row)
    show ?thesis
    proof (cases "insert_settings row (settings_rows s)")
      case (Inl x)
      then show ?thesis using None Inr by (simp add: create_new_user_def)
    next
      case ins: (Inr rows')
      obtain row' where "rows' = settings_rows s @ [row']" "s_user_id row' = uid"
        using insert_settings_rows [OF ins] settings_async_init_owner [OF Inr] by auto
      then show ?thesis
        using None Inr ins by (auto simp: create_new_user_def)
    qed
  qed
qed

lemma reachable_ids:
  "reachable s \<Longrightarrow>
   distinct (map user_id (users s))
   \<and> map s_user_id (settings_rows s) = map user_id (users s)"
proof (induction rule: reachable.induct)
  case init
  show ?case by (simp add: empty_store_def)
next
  case (new_user s d now uid nm)
  then show ?case
    using create_new_user_cases [of d now s uid nm] get_user_None_iff [of s uid]
    by (auto simp: new_user_def)
next
  case (new_game s ev uid ori)
  then show ?case by (simp add: ids_create_new_game)
next
  case (advance s uid pm lm ch f)
  then show ?case by (simp add: ids_update_current_game)
next
  case (stop s ev uid r)
  then show ?case by (simp add: ids_stop_current_game)
next
  case (settings s lim uid ps)
  then show ?case by (simp add: ids_update_settings)
qed

lemma map_of_filter_other:
  "k \<noteq> k0 \<Longrightarrow> map_of (filter (\<lambda>(k', v). k' \<noteq> k0) dl) k = map_of dl k"
  by (induction dl) auto

lemma length_filter_ids:
  "length (filter (\<lambda>x. f x = a) xs) = length (filter (\<lambda>i. i = a) (map f xs))"
  by (induction xs) auto

lemma count_distinct_member:
  "distinct ys \<Longrightarrow> a \<in> set ys \<Longrightarrow> length (filter (\<lambda>i. i = a) ys) = 1"
  by (induction ys) (auto simp: filter_empty_conv)

lemma create_new_user_existing:
  "get_user s uid \<noteq> None \<Longrightarrow> create_new_user d now s uid nm = (s, Inr ())"
  by (auto simp: create_new_user_def)

lemma create_new_user_fresh:
  assumes "get_user s uid = None" and "valid_defaults dl"
    and "uid \<notin> set (map s_user_id (settings_rows s))"
  shows "\<exists>row. create_new_user (Some dl) now s uid nm =
            (s\<lparr>users := users s @ [new_user uid nm now],
               settings_rows := settings_rows s @ [row]\<rparr>, Inr ())
          \<and> s_user_id row = uid
          \<and> (\<forall>k. k \<noteq> ''user_id'' \<and> k \<noteq> ''with_coords'' \<longrightarrow> s_params row k = map_of dl k)
          \<and> s_params row ''with_coords''
              = (case map_of dl ''with_coords'' of None \<Rightarrow> Some 1 | Some v \<Rightarrow> Some v)"
proof -
  let ?dl' = "filter (\<lambda>(k, v). k \<noteq> ''user_id'') dl"
  let ?row = "\<lparr>s_user_id = uid, s_params = map_of ?dl'\<rparr>"
  let ?row' = "if s_params ?row ''with_coords'' = None
               then ?row\<lparr>s_params := (s_params ?row)(''with_coords'' \<mapsto> 1)\<rparr> else ?row"
  have init: "settings_async_init (Some dl) uid = Inr ?row"
    using assms(2) by (simp add: settings_async_init_def valid_defaults_def)
  have "\<not> list_ex (\<lambda>r. s_user_id r = s_user_id ?row) (settings_rows s)"
    using assms(3) by (auto simp: list_ex_iff)
  moreover have "list_all (\<lambda>c. s_params ?row c \<noteq> None) required_columns"
    using assms(2) by (simp add: valid_defaults_def)
  ultimately have ins: "insert_settings ?row (settings_rows s) = Inr (settings_rows s @ [?row'])"
    by (simp add: insert_settings_def)
  have run: "create_new_user (Some dl) now s uid nm =
            (s\<lparr>users := users s @ [new_user uid nm now],
               settings_rows := settings_rows s @ [?row']\<rparr>, Inr ())"
    using assms(1) init ins by (simp add: create_new_user_def)
  have wc: "map_of ?dl' ''with_coords'' = map_of dl ''with_coords''"
    by (simp add: map_of_filter_other)
  have "s_user_id ?row' = uid"
    by simp
  moreover have "\<forall>k. k \<noteq> ''user_id'' \<and> k \<noteq> ''with_coords'' \<longrightarrow> s_params ?row' k = map_of dl k"
    by (simp add: map_of_filter_other)
  moreover have "s_params ?row' ''with_coords''
              = (case map_of dl ''with_coords'' of None \<Rightarrow> Some 1 | Some v \<Rightarrow> Some v)"
    using wc by (auto split: option.splits)
  ultimately show ?thesis
    using run by blast
qed

text \<open>
  C9. On a store reached by the operations, \<^verbatim>\<open>create_new_user\<close> for an id that has a
  User row returns without an error and leaves the store as it is. For an id without a
  User row, and defaults that the Settings table accepts, it appends one User row and one
  Settings row of that id in the same call; the Settings row holds the values of the
  defaults service (and the column default for \<^verbatim>\<open>with_coords\<close> when the service gives
  none). After a call that returned, a second call with the same id, whatever the name
  and the defaults, changes nothing and returns, and the store holds exactly one User row
  and exactly one Settings row of that id.
\<close>

theorem create_new_user_idempotent:
  assumes "reachable s"
  shows "(get_user s uid \<noteq> None \<longrightarrow> create_new_user d now s uid nm = (s, Inr ()))
   \<and> (get_user s uid = None \<and> valid_defaults dl \<longrightarrow>
        (\<exists>row. create_new_user (Some dl) now s uid nm =
            (s\<lparr>users := users s @ [new_user uid nm now],
               settings_rows := settings_rows s @ [row]\<rparr>, Inr ())
          \<and> s_user_id row = uid
          \<and> (\<forall>k. k \<noteq> ''user_id'' \<and> k \<noteq> ''with_coords'' \<longrightarrow> s_params row k = map_of dl k)
          \<and> s_params row ''with_coords''
              = (case map_of dl ''with_coords'' of None \<Rightarrow> Some 1 | Some v \<Rightarrow> Some v)))
   \<and> (snd (create_new_user d now s uid nm) = Inr () \<longrightarrow>
        create_new_user d' now' (fst (create_new_user d now s uid nm)) uid nm'
          = (fst (create_new_user d now s uid nm), Inr ())
        \<and> length (filter (\<lambda>u. user_id u = uid) (users (fst (create_new_user d now s uid nm)))) = 1
        \<and> length (filter (\<lambda>r. s_user_id r = uid)
                    (settings_rows (fst (create_new_user d now s uid nm)))) = 1)"
proof (intro conjI impI)
  assume "get_user s uid \<noteq> None"
  then show "create_new_user d now s uid nm = (s, Inr ())"
    by (rule create_new_user_existing)
next
  assume a: "get_user s uid = None \<and> valid_defaults dl"
  then have "uid \<notin> set (map s_user_id (settings_rows s))"
    using reachable_ids [OF assms] get_user_None_iff [of s uid] by simp
  then show "\<exists>row. create_new_user (Some dl) now s uid nm =
            (s\<lparr>users := users s @ [new_user uid nm now],
               settings_rows := settings_rows s @ [row]\<rparr>, Inr ())
          \<and> s_user_id row = uid
          \<and> (\<forall>k. k \<noteq> ''user_id'' \<and> k \<noteq> ''with_coords'' \<longrightarrow> s_params row k = map_of dl k)
          \<and> s_params row ''with_coords''
              = (case map_of dl ''with_coords'' of None \<Rightarrow> Some 1 | Some v \<Rightarrow> Some v)"
    using a create_new_user_fresh [of s uid dl now nm] by simp
next
  let ?s1 = "fst (create_new_user d now s uid nm)"
  assume ok: "snd (create_new_user d now s uid nm) = Inr ()"
  have known: "get_user ?s1 uid \<noteq> None"
    using create_new_user_cases [of d now s uid nm] ok
    by (auto simp: get_user_None_iff new_user_def)
  have "reachable ?s1"
    using assms by (rule reachable.new_user)
  then have ids: "distinct (map user_id (users ?s1))"
    "map s_user_id (settings_rows ?s1) = map user_id (users ?s1)"
    using reachable_ids by simp_all
  have mem: "uid \<in> set (map user_id (users ?s1))"
    using known get_user_None_iff [of ?s1 uid] by simp
  show "create_new_user d' now' ?s1 uid nm' = (?s1, Inr ())"
    using known by (rule create_new_user_existing)
  show "length (filter (\<lambda>u. user_id u = uid) (users ?s1)) = 1"
    using count_distinct_member [OF ids(1) mem] length_filter_ids [of user_id uid "users ?s1"]
    by simp
  show "length (filter (\<lambda>r. s_user_id r = uid) (settings_rows ?s1)) = 1"
    using count_distinct_member [OF ids(1) mem] ids(2)
      length_filter_ids [of s_user_id uid "settings_rows ?s1"]
    by simp
qed

theorem create_new_user_idempotent_witness:
  "reachable empty_store
   \<and> get_user empty_store 1 = None
   \<and> valid_defaults (the ex_defaults)
   \<and> users ex_registered = [new_user 1 ''ann'' 10]
   \<and> length (settings_rows ex_registered) = 1
   \<and> create_new_user None 99 ex_registered 1 ''bob'' = (ex_registered, Inr ())"
proof -
  have r: "reachable empty_store"
    by (rule reachable.init)
  have n: "get_user empty_store 1 = None"
    by (simp add: get_user_def empty_store_def)
  have v: "valid_defaults (the ex_defaults)"
    by (simp add: valid_defaults_def ex_defaults_def settings_columns_def required_columns_def)
  have d: "ex_defaults = Some (the ex_defaults)"
    by (simp add: ex_defaults_def)
  from create_new_user_idempotent [OF r, of 1 ex_defaults 10 "''ann''" "the ex_defaults"
      None 99 "''bob''"]
  obtain row where
    run: "create_new_user (Some (the ex_defaults)) 10 empty_store 1 ''ann'' =
            (empty_store\<lparr>users := users empty_store @ [new_user 1 ''ann'' 10],
               settings_rows := settings_rows empty_store @ [row]\<rparr>, Inr ())" and
    again: "snd (create_new_user ex_defaults 10 empty_store 1 ''ann'') = Inr () \<longrightarrow>
        create_new_user None 99 (fst (create_new_user ex_defaults 10 empty_store 1 ''ann'')) 1 ''bob''
          = (fst (create_new_user ex_defaults 10 empty_store 1 ''ann''), Inr ())"
    using n v by blast
  have reg: "create_new_user ex_defaults 10 empty_store 1 ''ann'' =
            (empty_store\<lparr>users := users empty_store @ [new_user 1 ''ann'' 10],
               settings_rows := settings_rows empty_store @ [row]\<rparr>, Inr ())"
    using run d by simp
  then have "users ex_registered = [new_user 1 ''ann'' 10]"
    "length (settings_rows ex_registered) = 1"
    "create_new_user None 99 ex_registered 1 ''bob'' = (ex_registered, Inr ())"
    using again by (simp_all add: ex_registered_def empty_store_def)
  then show ?thesis
    using r n v by blast
qed

section \<open>The counters on reachable stores\<close>

lemma counters_ok_record_outcome: "counters_ok usr \<Longrightarrow> counters_ok (record_outcome usr g w u)"
  by (auto simp: counters_ok_def record_outcome_def)

lemma counters_ok_stop:
  assumes "list_all counters_ok (users s)"
  shows "list_all counters_ok (users (fst (stop_current_game ev s uid r)))"
proof -
  obtain s' res where run: "stop_current_game ev s uid r = (s', res)"
    by (cases "stop_current_game ev s uid r")
  from stop_current_game_cases [OF run] show ?thesis
  proof
    assume "s' = s \<and> (res = Inr None \<or> (\<exists>x. res = Inl x))"
    then show ?thesis
      using assms run by simp
  next
    assume "\<exists>g e usr. get_current_game s uid = Some g \<and> ev (fen g) = Some e
        \<and> get_user s uid = Some usr
        \<and> res = Inr (Some (e, resolve_who_win r g e))
        \<and> s' = s\<lparr>games := deactivate_games uid (resolve_who_win r g e) (games s),
                 users := update_user_stats uid usr g (resolve_who_win r g e) (users s)\<rparr>"
    then obtain g e usr where usr: "get_user s uid = Some usr"
      and s': "s' = s\<lparr>games := deactivate_games uid (resolve_who_win r g e) (games s),
                 users := update_user_stats uid usr g (resolve_who_win r g e) (users s)\<rparr>"
      by blast
    have "usr \<in> set (users s)"
      using usr by (auto simp: get_user_def find_Some_iff)
    then have "counters_ok usr"
      using assms by (simp add: list_all_iff)
    then show ?thesis
      using assms counters_ok_record_outcome [of usr g]
      by (auto simp: run s' update_user_stats_def list_all_iff)
  qed
qed

lemma users_create_new_game:
  "users (fst (create_new_game ev s uid ori)) = users s
   \<or> users (fst (create_new_game ev s uid ori)) = users (fst (stop_current_game ev s uid True))"
  by (auto simp: create_new_game_def split: prod.splits sum.splits)

lemma reachable_counters_ok: "reachable s \<Longrightarrow> list_all counters_ok (users s)"
proof (induction rule: reachable.induct)
  case init
  show ?case by (simp add: empty_store_def)
next
  case (new_user s d now uid nm)
  then show ?case
    using create_new_user_cases [of d now s uid nm]
    by (auto simp: new_user_def counters_ok_def)
next
  case (new_game s ev uid ori)
  then show ?case
    using users_create_new_game [of ev s uid ori] counters_ok_stop [of s ev uid True]
    by auto
next
  case (advance s uid pm lm ch f)
  then show ?case by (simp add: ids_update_current_game)
next
  case (stop s ev uid r)
  then show ?case by (simp add: counters_ok_stop)
next
  case (settings s lim uid ps)
  then show ?case by (simp add: ids_update_settings)
qed

section \<open>Properties of the leaderboard\<close>

lemma rank_key_le: "rank_key a \<le> rank_key b \<longleftrightarrow> ranks_before a b"
  by (auto simp: rank_key_def ranks_before_def)

lemma ranked_sorted: "sorted_wrt ranks_before (sort_key rank_key us)"
proof -
  have "sorted (map rank_key (sort_key rank_key us))"
    by (rule sorted_sort_key)
  then show ?thesis
    by (simp add: sorted_map rank_key_le)
qed

lemma py_truediv_nonzero: "b \<noteq> 0 \<Longrightarrow> \<exists>q. py_truediv a b = Inr q"
  by (simp add: py_truediv_def split: prod.splits)

lemma win_rate_returns: "\<exists>r. win_rate u = Inr r"
proof -
  have "(if total_games u \<noteq> 0 then total_games u else 1) \<noteq> 0"
    by simp
  from py_truediv_nonzero [OF this]
  obtain q where "py_truediv (total_wins u) (if total_games u \<noteq> 0 then total_games u else 1)
                   = Inr q"
    by blast
  then show ?thesis
    by (simp add: win_rate_def)
qed

lemma win_rate_spec:
  "0 \<le> total_games u \<Longrightarrow> win_rate u = spec_win_rate (total_wins u) (total_games u)"
proof -
  assume "0 \<le> total_games u"
  then have "(if total_games u \<noteq> 0 then total_games u else 1) = max (total_games u) 1"
    by (simp add: max_def)
  then show ?thesis
    by (simp add: win_rate_def spec_win_rate_def)
qed

lemma win_rate_no_games:
  "total_games u = 0 \<Longrightarrow> total_wins u = 0 \<Longrightarrow> win_rate u = Inr 0"
  by (simp add: win_rate_def py_truediv_def float_mul_int_def py_round_def)

lemma user_lines_rates:
  "map win_rate us = map Inr rs \<Longrightarrow>
   user_lines us = Inr (map (\<lambda>(u, r). format_line u r) (zip us rs))"
proof (induction us arbitrary: rs)
  case Nil
  then show ?case by simp
next
  case (Cons u us)
  then obtain r rs' where rs: "rs = r # rs'"
    by (cases rs) auto
  then show ?case
    using Cons by simp
qed

lemma rates_exist: "\<exists>rs. map win_rate us = map Inr rs"
proof (induction us)
  case Nil
  show ?case by simp
next
  case (Cons u us)
  then obtain rs where "map win_rate us = map Inr rs"
    by blast
  moreover obtain r where "win_rate u = Inr r"
    using win_rate_returns by blast
  ultimately have "map win_rate (u # us) = map Inr (r # rs)"
    by simp
  then show ?case
    by blast
qed

lemma join_lines_Cons: "join_lines (l # ls) = l @ concat (map (\<lambda>x. CHR 0x0A # x) ls)"
  by (induction ls arbitrary: l) simp_all

lemma concat_format_lines:
  "concat (map (\<lambda>x. CHR 0x0A # x) (map (\<lambda>(u, r). format_line u r) zs))
     = concat (map (\<lambda>(u, r). CHR 0x0A # ''['' @ name u @ ''](tg://user?id=''
           @ str_int (user_id u) @ '') - '' @ str_int (total_wins u) @ ''/''
           @ str_int (total_draws u) @ ''/'' @ str_int (total_defeats u) @ ''/''
           @ str_int (total_games u) @ '' - '' @ str_int r @ ''%'') zs)"
  by (induction zs) (auto simp: format_line_def)

lemma global_statistic_uncached_rates:
  assumes "map win_rate (top_users cfg s) = map Inr rates"
  shows "global_statistic_uncached cfg s =
           Inr (header_line
             @ concat (map (\<lambda>(u, r). CHR 0x0A # ''['' @ name u @ ''](tg://user?id=''
                 @ str_int (user_id u) @ '') - '' @ str_int (total_wins u) @ ''/''
                 @ str_int (total_draws u) @ ''/'' @ str_int (total_defeats u) @ ''/''
                 @ str_int (total_games u) @ '' - '' @ str_int r @ ''%'')
                 (zip (top_users cfg s) rates))
             @ CHR 0x0A # trailer_line cfg)"
proof -
  have "user_lines (top_users cfg s)
          = Inr (map (\<lambda>(u, r). format_line u r) (zip (top_users cfg s) rates))"
    using assms by (rule user_lines_rates)
  moreover have "join_lines (header_line
            # map (\<lambda>(u, r). format_line u r) (zip (top_users cfg s) rates)
            @ [trailer_line cfg])
          = header_line
            @ concat (map (\<lambda>x. CHR 0x0A # x)
                (map (\<lambda>(u, r). format_line u r) (zip (top_users cfg s) rates)))
            @ CHR 0x0A # trailer_line cfg"
    unfolding join_lines_Cons by simp
  ultimately show ?thesis
    unfolding global_statistic_uncached_def concat_format_lines [symmetric]
    by (simp only: sum.case)
qed

lemma top_users_subset: "set (top_users cfg s) \<subseteq> set (users s)"
proof -
  have "set (top_users cfg s) \<subseteq> set (sort_key rank_key (users s))"
    unfolding top_users_def by (rule set_take_subset)
  then show ?thesis
    by simp
qed

lemma rates_nth:
  assumes "map win_rate us = map Inr rates" and "i < length rates"
  shows "win_rate (us ! i) = Inr (rates ! i)"
proof -
  have len: "length us = length rates"
    using assms(1) by (rule map_eq_imp_length_eq)
  have "map win_rate us ! i = map Inr rates ! i"
    using assms(1) by simp
  then show ?thesis
    using assms(2) len by simp
qed

lemma get_global_statistic_miss:
  assumes "global_statistic_uncached cfg s = Inr msg" and "cache_get c now = None"
  shows "get_global_statistic cfg now c s
           = (Some (now + int (CACHE_GLOBAL_TOP cfg), msg), Inr msg)"
  using assms by (simp add: get_global_statistic_def)

lemma get_global_statistic_hit:
  "now < t \<Longrightarrow> get_global_statistic cfg now (Some (t, m)) s = (Some (t, m), Inr m)"
  by (simp add: get_global_statistic_def cache_get_def)

text \<open>
  C8. When the counters of the User rows satisfy the constraint of the data model, as
  they do in every reachable store (\<open>reachable_counters_ok\<close>), the message that
  \<^verbatim>\<open>get_global_statistic\<close> computes consists of the header, one line for each of the first
  \<^verbatim>\<open>GLOBAL_TOP\<close> rows (all rows when there are fewer) of the User table arranged by
  \<^verbatim>\<open>total_wins\<close> descending and, among equal wins, by \<^verbatim>\<open>created_time\<close> ascending, in
  that order, and the trailer, each after a line feed. The line of a row shows its name,
  id, wins, draws, defeats and games and its win rate, which is
  \<^verbatim>\<open>round(total_wins / max(total_games, 1) * 100)\<close>; the computation of a win rate never
  divides by zero, and for a row with no games the rate is 0. A call with an empty cache,
  or with a cached message that has expired, returns this message and keeps it for
  \<^verbatim>\<open>CACHE_GLOBAL_TOP\<close> seconds; a call before the expiry of a cached message returns the
  cached message, whatever the tables hold by then.
\<close>

theorem get_global_statistic_ranking:
  assumes "list_all counters_ok (users s)"
  shows "\<exists>rates msg.
     length (top_users cfg s) = min (GLOBAL_TOP cfg) (length (users s))
   \<and> length (top_users cfg s) \<le> GLOBAL_TOP cfg
   \<and> (\<exists>rest. mset (top_users cfg s @ rest) = mset (users s)
         \<and> sorted_wrt (\<lambda>a b. total_wins b < total_wins a
                \<or> (total_wins a = total_wins b \<and> created_time a \<le> created_time b))
              (top_users cfg s @ rest))
   \<and> (\<forall>u \<in> set (users s).
         win_rate u = spec_win_rate (total_wins u) (total_games u)
         \<and> win_rate u \<noteq> Inl ZeroDivisionError
         \<and> (total_games u = 0 \<longrightarrow> win_rate u = Inr 0))
   \<and> length rates = length (top_users cfg s)
   \<and> (\<forall>i < length rates.
         spec_win_rate (total_wins (top_users cfg s ! i)) (total_games (top_users cfg s ! i))
           = Inr (rates ! i))
   \<and> msg = header_line
         @ concat (map (\<lambda>(u, r). CHR 0x0A # ''['' @ name u @ ''](tg://user?id=''
             @ str_int (user_id u) @ '') - '' @ str_int (total_wins u) @ ''/''
             @ str_int (total_draws u) @ ''/'' @ str_int (total_defeats u) @ ''/''
             @ str_int (total_games u) @ '' - '' @ str_int r @ ''%'')
             (zip (top_users cfg s) rates))
         @ CHR 0x0A # trailer_line cfg
   \<and> global_statistic_uncached cfg s = Inr msg
   \<and> get_global_statistic cfg now None s
       = (Some (now + int (CACHE_GLOBAL_TOP cfg), msg), Inr msg)
   \<and> (\<forall>t m. t \<le> now \<longrightarrow>
         get_global_statistic cfg now (Some (t, m)) s
           = (Some (now + int (CACHE_GLOBAL_TOP cfg), msg), Inr msg))
   \<and> (\<forall>t m. now < t \<longrightarrow>
         get_global_statistic cfg now (Some (t, m)) s = (Some (t, m), Inr m))
   \<and> (\<forall>now' s'. now' < now + int (CACHE_GLOBAL_TOP cfg) \<longrightarrow>
         get_global_statistic cfg now' (Some (now + int (CACHE_GLOBAL_TOP cfg), msg)) s'
           = (Some (now + int (CACHE_GLOBAL_TOP cfg), msg), Inr msg))"
proof -
  let ?ranked = "sort_key rank_key (users s)"
  let ?top = "top_users cfg s"
  let ?before = "\<lambda>a b. total_wins b < total_wins a
                \<or> (total_wins a = total_wins b \<and> created_time a \<le> created_time b)"
  have len: "length ?top = min (GLOBAL_TOP cfg) (length (users s))"
    by (simp add: top_users_def min.commute)
  have le: "length ?top \<le> GLOBAL_TOP cfg"
    by (simp add: top_users_def)
  have split: "?top @ drop (GLOBAL_TOP cfg) ?ranked = ?ranked"
    by (simp add: top_users_def)
  have before: "ranks_before = ?before"
    by (intro ext) (simp add: ranks_before_def)
  have order: "\<exists>rest. mset (?top @ rest) = mset (users s) \<and> sorted_wrt ?before (?top @ rest)"
  proof (intro exI conjI)
    show "mset (?top @ drop (GLOBAL_TOP cfg) ?ranked) = mset (users s)"
      unfolding split by simp
    have "sorted_wrt ranks_before (?top @ drop (GLOBAL_TOP cfg) ?ranked)"
      unfolding split by (rule ranked_sorted)
    then show "sorted_wrt ?before (?top @ drop (GLOBAL_TOP cfg) ?ranked)"
      unfolding before .
  qed
  have rate: "\<forall>u \<in> set (users s).
         win_rate u = spec_win_rate (total_wins u) (total_games u)
         \<and> win_rate u \<noteq> Inl ZeroDivisionError
         \<and> (total_games u = 0 \<longrightarrow> win_rate u = Inr 0)"
  proof
    fix u assume "u \<in> set (users s)"
    then have ok: "counters_ok u"
      using assms by (simp add: list_all_iff)
    then have "0 \<le> total_games u"
      by (simp add: counters_ok_def)
    then have "win_rate u = spec_win_rate (total_wins u) (total_games u)"
      by (rule win_rate_spec)
    moreover have "win_rate u \<noteq> Inl ZeroDivisionError"
      using win_rate_returns [of u] by auto
    moreover have "total_games u = 0 \<longrightarrow> win_rate u = Inr 0"
      using ok win_rate_no_games [of u] by (simp add: counters_ok_def)
    ultimately show "win_rate u = spec_win_rate (total_wins u) (total_games u)
         \<and> win_rate u \<noteq> Inl ZeroDivisionError
         \<and> (total_games u = 0 \<longrightarrow> win_rate u = Inr 0)"
      by simp
  qed
  obtain rates where rates: "map win_rate ?top = map Inr rates"
    using rates_exist by blast
  have lr: "length rates = length ?top"
    using rates by (metis length_map)
  have nth: "\<forall>i < length rates.
         spec_win_rate (total_wins (?top ! i)) (total_games (?top ! i)) = Inr (rates ! i)"
  proof (intro allI impI)
    fix i assume i: "i < length rates"
    then have "?top ! i \<in> set (users s)"
      using lr top_users_subset [of cfg s] by (metis nth_mem subsetD)
    then have "win_rate (?top ! i)
                 = spec_win_rate (total_wins (?top ! i)) (total_games (?top ! i))"
      using rate by blast
    then show "spec_win_rate (total_wins (?top ! i)) (total_games (?top ! i)) = Inr (rates ! i)"
      using rates_nth [OF rates i] by simp
  qed
  let ?msg = "header_line
         @ concat (map (\<lambda>(u, r). CHR 0x0A # ''['' @ name u @ ''](tg://user?id=''
             @ str_int (user_id u) @ '') - '' @ str_int (total_wins u) @ ''/''
             @ str_int (total_draws u) @ ''/'' @ str_int (total_defeats u) @ ''/''
             @ str_int (total_games u) @ '' - '' @ str_int r @ ''%'')
             (zip ?top rates))
         @ CHR 0x0A # trailer_line cfg"
  let ?c = "Some (now + int (CACHE_GLOBAL_TOP cfg), ?msg)"
  have body: "global_statistic_uncached cfg s = Inr ?msg"
    using rates by (rule global_statistic_uncached_rates)
  have empty: "get_global_statistic cfg now None s = (?c, Inr ?msg)"
    using body by (rule get_global_statistic_miss) (simp add: cache_get_def)
  have expired: "\<forall>t m. t \<le> now \<longrightarrow>
         get_global_statistic cfg now (Some (t, m)) s = (?c, Inr ?msg)"
  proof (intro allI impI)
    fix t :: int and m :: string
    assume "t \<le> now"
    then have "cache_get (Some (t, m)) now = None"
      by (simp add: cache_get_def)
    with body show "get_global_statistic cfg now (Some (t, m)) s = (?c, Inr ?msg)"
      by (rule get_global_statistic_miss)
  qed
  have hit: "\<forall>t m. now < t \<longrightarrow>
         get_global_statistic cfg now (Some (t, m)) s = (Some (t, m), Inr m)"
    by (simp add: get_global_statistic_hit)
  have later: "\<forall>now' s'. now' < now + int (CACHE_GLOBAL_TOP cfg) \<longrightarrow>
         get_global_statistic cfg now' ?c s' = (?c, Inr ?msg)"
    by (simp add: get_global_statistic_hit)
  show ?thesis
    using len le order rate lr nth body empty expired hit later
    by (intro exI [of _ rates] exI [of _ ?msg] conjI) (rule refl | assumption)+
qed

lemmas float_defs =
  win_rate_def py_truediv_def round_b64_def rne_div_def float_mul_int_def py_round_def Let_def

lemmas board_defs = ex_board_def ex_config_def ex_a_def ex_b_def ex_c_def ex_d_def

lemma ex_board_rates:
  "spec_win_rate (total_wins ex_c) (total_games ex_c) = Inr 77"
  "spec_win_rate (total_wins ex_a) (total_games ex_a) = Inr 57"
  "spec_win_rate (total_wins ex_d) (total_games ex_d) = Inr 75"
  by (simp_all add: spec_win_rate_def float_defs board_defs)

lemma ex_board_message:
  "header_line
     @ concat (map (\<lambda>(u, r). CHR 0x0A # ''['' @ name u @ ''](tg://user?id=''
         @ str_int (user_id u) @ '') - '' @ str_int (total_wins u) @ ''/''
         @ str_int (total_draws u) @ ''/'' @ str_int (total_defeats u) @ ''/''
         @ str_int (total_games u) @ '' - '' @ str_int r @ ''%'')
         (zip [ex_c, ex_a, ex_d] [77, 57, 75]))
     @ CHR 0x0A # trailer_line ex_config
   = ex_message"
  by code_simp

theorem get_global_statistic_ranking_witness:
  "list_all counters_ok (users ex_board)
   \<and> top_users ex_config ex_board = [ex_c, ex_a, ex_d]
   \<and> map win_rate [ex_c, ex_a, ex_d] = [Inr 77, Inr 57, Inr 75]
   \<and> win_rate ex_b = Inr 0
   \<and> global_statistic_uncached ex_config ex_board = Inr ex_message
   \<and> get_global_statistic ex_config 1000 None ex_board
       = (Some (1060, ex_message), Inr ex_message)
   \<and> get_global_statistic ex_config 1059 (Some (1060, ex_message)) empty_store
       = (Some (1060, ex_message), Inr ex_message)
   \<and> get_global_statistic ex_config 1000 (Some (1000, ''old'')) ex_board
       = (Some (1060, ex_message), Inr ex_message)
   \<and> get_global_statistic ex_config 1000 (Some (1001, ''old'')) ex_board
       = (Some (1001, ''old''), Inr ''old'')"
proof -
  have h: "list_all counters_ok (users ex_board)"
    by (simp add: board_defs counters_ok_def)
  have top: "top_users ex_config ex_board = [ex_c, ex_a, ex_d]"
    by (simp add: top_users_def rank_key_def board_defs)
  have rates: "map win_rate [ex_c, ex_a, ex_d] = [Inr 77, Inr 57, Inr 75]"
    by (simp add: float_defs board_defs)
  have b: "ex_b \<in> set (users ex_board)" "total_games ex_b = 0"
    by (simp_all add: board_defs)
  have ttl: "1000 + int (CACHE_GLOBAL_TOP ex_config) = 1060"
    by (simp add: ex_config_def)
  from get_global_statistic_ranking [OF h, of ex_config 1000]
  obtain rs msg where
    all: "\<forall>u \<in> set (users ex_board). total_games u = 0 \<longrightarrow> win_rate u = Inr 0" and
    len: "length rs = length (top_users ex_config ex_board)" and
    nth: "\<forall>i < length rs.
         spec_win_rate (total_wins (top_users ex_config ex_board ! i))
             (total_games (top_users ex_config ex_board ! i))
           = Inr (rs ! i)" and
    m: "msg = header_line
         @ concat (map (\<lambda>(u, r). CHR 0x0A # ''['' @ name u @ ''](tg://user?id=''
             @ str_int (user_id u) @ '') - '' @ str_int (total_wins u) @ ''/''
             @ str_int (total_draws u) @ ''/'' @ str_int (total_defeats u) @ ''/''
             @ str_int (total_games u) @ '' - '' @ str_int r @ ''%'')
             (zip (top_users ex_config ex_board) rs))
         @ CHR 0x0A # trailer_line ex_config" and
    body: "global_statistic_uncached ex_config ex_board = Inr msg" and
    empty: "get_global_statistic ex_config 1000 None ex_board
       = (Some (1000 + int (CACHE_GLOBAL_TOP ex_config), msg), Inr msg)" and
    expired: "\<forall>t m. t \<le> 1000 \<longrightarrow>
         get_global_statistic ex_config 1000 (Some (t, m)) ex_board
           = (Some (1000 + int (CACHE_GLOBAL_TOP ex_config), msg), Inr msg)" and
    hit: "\<forall>t m. 1000 < t \<longrightarrow>
         get_global_statistic ex_config 1000 (Some (t, m)) ex_board = (Some (t, m), Inr m)" and
    later: "\<forall>now' s'. now' < 1000 + int (CACHE_GLOBAL_TOP ex_config) \<longrightarrow>
         get_global_statistic ex_config now'
             (Some (1000 + int (CACHE_GLOBAL_TOP ex_config), msg)) s'
           = (Some (1000 + int (CACHE_GLOBAL_TOP ex_config), msg), Inr msg)"
    by blast
  have l3: "length rs = 3"
    using len top by simp
  have n0: "rs ! 0 = 77"
    using nth [rule_format, of 0] l3 top ex_board_rates(1) by simp
  have n1: "rs ! 1 = 57"
    using nth [rule_format, of 1] l3 top ex_board_rates(2) by simp
  have n2: "rs ! 2 = 75"
    using nth [rule_format, of 2] l3 top ex_board_rates(3) by simp
  have rs: "rs = [77, 57, 75]"
    using l3 n0 n1 n2
    by (auto simp: list_eq_iff_nth_eq less_Suc_eq numeral_3_eq_3 numeral_2_eq_2)
  have msg: "msg = ex_message"
    unfolding m top rs by (rule ex_board_message)
  have r0: "global_statistic_uncached ex_config ex_board = Inr ex_message"
    using body unfolding msg .
  have r1: "get_global_statistic ex_config 1000 None ex_board
       = (Some (1060, ex_message), Inr ex_message)"
    using empty unfolding ttl msg .
  have r2: "get_global_statistic ex_config 1059 (Some (1060, ex_message)) empty_store
       = (Some (1060, ex_message), Inr ex_message)"
    using later unfolding ttl msg by simp
  have r3: "get_global_statistic ex_config 1000 (Some (1000, ''old'')) ex_board
       = (Some (1060, ex_message), Inr ex_message)"
    using expired unfolding ttl msg by simp
  have r4: "get_global_statistic ex_config 1000 (Some (1001, ''old'')) ex_board
       = (Some (1001, ''old''), Inr ''old'')"
    using hit by simp
  have "win_rate ex_b = Inr 0"
    using all b by blast
  then show ?thesis
    using h top rates r0 r1 r2 r3 r4 by blast
qed

end
